(* ===== verification/Prelude.thy ===== *)
theory Prelude
  imports Main "HOL-Library.Word"
begin

text \<open>
  Shared vocabulary of the development: the integer types of \<open>src/src/utils/types.hpp\<close>,
  the exceptions the server throws, the outcome of a C++ call, a state monad over that
  outcome with its weakest-precondition calculus, and generic list lemmas.

  \<^item> A C++ call ends in one of five ways, the constructors of \<open>outcome\<close>: it returns
    (\<open>Ret\<close>), leaves with an exception (\<open>Throw\<close>), has undefined behaviour
    (\<open>Undef\<close>: control flows off the end of a value-returning function, a view is
    shrunk past its end, an empty optional is dereferenced), never comes back (\<open>Hang\<close>:
    a blocked semaphore, a loop that spins for ever) or ends the process (\<open>Terminate\<close>:
    an exception leaves a thread's function or a destructor).
  \<^item> Stateful code is a function from the state to an outcome and the new state, so the
    state an exception leaves behind stays visible to the handler.
\<close>

section \<open>Machine integers\<close>

type_synonym u64 = "64 word"
type_synonym i64 = "64 word" \<comment> \<open>read through \<^const>\<open>sint\<close>\<close>
type_synonym u32 = "32 word"
type_synonym u16 = "16 word"
type_synonym u8 = "8 word"
type_synonym i8 = "8 word" \<comment> \<open>read through \<^const>\<open>sint\<close>\<close>
type_synonym i32 = "32 word" \<comment> \<open>read through \<^const>\<open>sint\<close>\<close>

section \<open>Exceptions and outcomes\<close>

text \<open>
  Every exception below derives from \<open>std::exception\<close>, so each
  \<open>catch (const std::exception&)\<close> of the source catches all of them.
\<close>

datatype exn =
    RuntimeError string
  | InvalidArgument string
  | OutOfRange string
  | SystemError string    \<comment> \<open>\<open>boost::system::system_error\<close>: JSON parsing and access, sockets\<close>
  | PtreeError string     \<comment> \<open>\<open>boost::property_tree::ptree_error\<close>\<close>
  | SQLException string   \<comment> \<open>\<open>sql::SQLException\<close> of the MySQL connector\<close>
  | JwtError string       \<comment> \<open>what \<open>jwt::decode\<close> and the claim accessors throw\<close>

datatype 'a outcome = Ret 'a | Throw exn | Undef | Hang | Terminate

primrec obind :: "'a outcome \<Rightarrow> ('a \<Rightarrow> 'b outcome) \<Rightarrow> 'b outcome" where
  "obind (Ret x) f = f x"
| "obind (Throw e) f = Throw e"
| "obind Undef f = Undef"
| "obind Hang f = Hang"
| "obind Terminate f = Terminate"

primrec escapes :: "'a outcome \<Rightarrow> bool" where
  "escapes (Ret x) = False"
| "escapes (Throw e) = True"
| "escapes Undef = False"
| "escapes Hang = False"
| "escapes Terminate = False"

lemma obind_eq_Ret: "obind m f = Ret y \<longleftrightarrow> (\<exists>x. m = Ret x \<and> f x = Ret y)"
  by (cases m) auto

lemma obind_assoc: "obind (obind m f) g = obind m (\<lambda>x. obind (f x) g)"
  by (cases m) auto

lemma obind_Ret [simp]: "obind m Ret = m"
  by (cases m) auto

text \<open>A text between two \<open>'\<close> characters, as messages of the source quote names.\<close>

definition single_quoted :: "string \<Rightarrow> string" where
  "single_quoted v = [CHR 0x27] @ v @ [CHR 0x27]"

section \<open>The state monad over outcomes\<close>

type_synonym ('s, 'a) prog = "'s \<Rightarrow> 'a outcome \<times> 's"

definition ret :: "'a \<Rightarrow> ('s, 'a) prog" where
  "ret x s = (Ret x, s)"

definition raise :: "exn \<Rightarrow> ('s, 'a) prog" where
  "raise e s = (Throw e, s)"

definition undef :: "('s, 'a) prog" where
  "undef s = (Undef, s)"

definition lift :: "'a outcome \<Rightarrow> ('s, 'a) prog" where
  "lift r s = (r, s)"

definition gets :: "('s \<Rightarrow> 'a) \<Rightarrow> ('s, 'a) prog" where
  "gets f s = (Ret (f s), s)"

definition modify :: "('s \<Rightarrow> 's) \<Rightarrow> ('s, unit) prog" where
  "modify f s = (Ret (), f s)"

definition andthen :: "('s, 'a) prog \<Rightarrow> ('a \<Rightarrow> ('s, 'b) prog) \<Rightarrow> ('s, 'b) prog" where
  "andthen m f s =
     (case m s of (r, s') \<Rightarrow>
       (case r of
          Ret x \<Rightarrow> f x s'
        | Throw e \<Rightarrow> (Throw e, s')
        | Undef \<Rightarrow> (Undef, s')
        | Hang \<Rightarrow> (Hang, s')
        | Terminate \<Rightarrow> (Terminate, s')))"

text \<open>\<open>try { m } catch (const std::exception& e) { h(e) }\<close>\<close>

definition try_catch :: "('s, 'a) prog \<Rightarrow> (exn \<Rightarrow> ('s, 'a) prog) \<Rightarrow> ('s, 'a) prog" where
  "try_catch m h s =
     (case m s of (r, s') \<Rightarrow> (case r of Throw e \<Rightarrow> h e s' | _ \<Rightarrow> (r, s')))"

text \<open>
  A local object with a destructor: the destructor runs when the body returns and when an
  exception unwinds it; an exception out of the destructor itself ends the process.
\<close>

definition with_dtor :: "('s, 'a) prog \<Rightarrow> ('s, unit) prog \<Rightarrow> ('s, 'a) prog" where
  "with_dtor m d s =
     (case m s of (r, s') \<Rightarrow>
       (case r of
          Undef \<Rightarrow> (Undef, s')
        | Hang \<Rightarrow> (Hang, s')
        | Terminate \<Rightarrow> (Terminate, s')
        | _ \<Rightarrow> (case d s' of (q, s'') \<Rightarrow>
                 (case q of
                    Ret _ \<Rightarrow> (r, s'')
                  | Throw _ \<Rightarrow> (Terminate, s'')
                  | Undef \<Rightarrow> (Undef, s'')
                  | Hang \<Rightarrow> (Hang, s'')
                  | Terminate \<Rightarrow> (Terminate, s'')))))"

fun repeat_prog :: "nat \<Rightarrow> ('s, 'a) prog \<Rightarrow> ('s, 'a list) prog" where
  "repeat_prog 0 m = ret []"
| "repeat_prog (Suc k) m = andthen m (\<lambda>x. andthen (repeat_prog k m) (\<lambda>xs. ret (x # xs)))"

section \<open>Weakest preconditions\<close>

text \<open>
  \<open>wp m Q s\<close>: running \<open>m\<close> from \<open>s\<close> ends in an outcome and a state that satisfy
  \<open>Q\<close>. The rules are equations, so the simplifier computes the condition of a whole
  handler; the collection \<open>wp_simps\<close> carries them.
\<close>

definition wp :: "('s, 'a) prog \<Rightarrow> ('a outcome \<Rightarrow> 's \<Rightarrow> bool) \<Rightarrow> 's \<Rightarrow> bool" where
  "wp m Q s = (case m s of (r, s') \<Rightarrow> Q r s')"

named_theorems wp_simps "weakest preconditions of the program combinators"

lemma wp_ret [wp_simps]: "wp (ret x) Q s = Q (Ret x) s"
  by (simp add: wp_def ret_def)

lemma wp_raise [wp_simps]: "wp (raise e) Q s = Q (Throw e) s"
  by (simp add: wp_def raise_def)

lemma wp_undef [wp_simps]: "wp undef Q s = Q Undef s"
  by (simp add: wp_def undef_def)

lemma wp_lift [wp_simps]: "wp (lift r) Q s = Q r s"
  by (simp add: wp_def lift_def)

lemma wp_gets [wp_simps]: "wp (gets f) Q s = Q (Ret (f s)) s"
  by (simp add: wp_def gets_def)

lemma wp_modify [wp_simps]: "wp (modify f) Q s = Q (Ret ()) (f s)"
  by (simp add: wp_def modify_def)

lemma wp_andthen [wp_simps]:
  "wp (andthen m f) Q s =
     wp m (\<lambda>r s'. case r of Ret x \<Rightarrow> wp (f x) Q s' | Throw e \<Rightarrow> Q (Throw e) s'
                 | Undef \<Rightarrow> Q Undef s' | Hang \<Rightarrow> Q Hang s' | Terminate \<Rightarrow> Q Terminate s') s"
  by (auto simp: wp_def andthen_def split: outcome.splits prod.splits)

lemma wp_try_catch [wp_simps]:
  "wp (try_catch m h) Q s =
     wp m (\<lambda>r s'. case r of Throw e \<Rightarrow> wp (h e) Q s' | _ \<Rightarrow> Q r s') s"
  by (auto simp: wp_def try_catch_def split: outcome.splits prod.splits)

lemma wp_with_dtor [wp_simps]:
  "wp (with_dtor m d) Q s =
     wp m (\<lambda>r s'. case r of Undef \<Rightarrow> Q Undef s' | Hang \<Rightarrow> Q Hang s' | Terminate \<Rightarrow> Q Terminate s'
       | _ \<Rightarrow> wp d (\<lambda>q s''. case q of Ret _ \<Rightarrow> Q r s'' | Throw _ \<Rightarrow> Q Terminate s''
              | Undef \<Rightarrow> Q Undef s'' | Hang \<Rightarrow> Q Hang s'' | Terminate \<Rightarrow> Q Terminate s'') s') s"
  by (auto simp: wp_def with_dtor_def split: outcome.splits prod.splits)

lemma wp_if [wp_simps]: "wp (if b then m else n) Q s = (if b then wp m Q s else wp n Q s)"
  by simp

lemma wp_mono: "wp m Q s \<Longrightarrow> (\<And>r s'. Q r s' \<Longrightarrow> R r s') \<Longrightarrow> wp m R s"
  by (auto simp: wp_def)

lemma wp_run: "wp m (\<lambda>r s'. r = fst (m s) \<and> s' = snd (m s)) s"
  by (simp add: wp_def split: prod.splits)

lemma wp_result: "wp m Q s \<Longrightarrow> m s = (r, s') \<Longrightarrow> Q r s'"
  by (simp add: wp_def)

lemma with_dtor_eq_Ret: "with_dtor m d s = (Ret x, t) \<longleftrightarrow> (\<exists>u. m s = (Ret x, u) \<and> d u = (Ret (), t))"
  by (auto simp: with_dtor_def split: prod.splits outcome.splits)

lemma andthen_eq_Ret:
  "andthen m f s = (Ret y, t) \<longleftrightarrow> (\<exists>x s'. m s = (Ret x, s') \<and> f x s' = (Ret y, t))"
  by (auto simp: andthen_def split: outcome.splits prod.splits)

lemma ret_eq: "ret x s = (r, s') \<longleftrightarrow> r = Ret x \<and> s' = s"
  by (auto simp: ret_def)

lemma repeat_prog_numeral:
  "repeat_prog (numeral n) m =
     andthen m (\<lambda>x. andthen (repeat_prog (pred_numeral n) m) (\<lambda>xs. ret (x # xs)))"
  by (simp add: numeral_eq_Suc)

lemma repeat_prog_Suc_eq:
  "repeat_prog (Suc k) m s = (Ret zs, t) \<longleftrightarrow>
     (\<exists>x xs s'. m s = (Ret x, s') \<and> repeat_prog k m s' = (Ret xs, t) \<and> zs = x # xs)"
  by (auto simp: andthen_eq_Ret ret_eq)

lemma repeat_prog_add:
  "repeat_prog j m s = (Ret xs, t) \<Longrightarrow> repeat_prog k m t = (Ret ys, u) \<Longrightarrow>
     repeat_prog (j + k) m s = (Ret (xs @ ys), u)"
proof (induction j arbitrary: s xs)
  case 0
  then show ?case by (simp add: ret_eq)
next
  case (Suc j)
  from Suc.prems(1) obtain z zs v where
    "m s = (Ret z, v)" "repeat_prog j m v = (Ret zs, t)" "xs = z # zs"
    by (auto simp: repeat_prog_Suc_eq simp del: repeat_prog.simps)
  with Suc.IH [OF _ Suc.prems(2)] show ?case
    by (auto simp: repeat_prog_Suc_eq simp del: repeat_prog.simps)
qed

section \<open>Lists\<close>

lemma takeWhile_append_stop:
  "(\<forall>x\<in>set xs. P x) \<Longrightarrow> (ys = [] \<or> \<not> P (hd ys)) \<Longrightarrow> takeWhile P (xs @ ys) = xs"
  by (induction xs) (auto simp: takeWhile_eq_Nil_iff)

lemma drop_takeWhile_length: "drop (length (takeWhile P xs)) xs = dropWhile P xs"
  by (induction xs) auto

lemma length_takeWhile_less_iff: "length (takeWhile P xs) < length xs \<longleftrightarrow> (\<exists>x\<in>set xs. \<not> P x)"
  by (induction xs) auto

lemma sorted_wrt_less_distinct: "sorted_wrt (<) (xs :: 'a::order list) \<Longrightarrow> distinct xs"
  by (induction xs) auto

text \<open>Replacing one entry of a list changes a sum over it by that entry only.\<close>

lemma sum_list_map_update:
  fixes f :: "'a \<Rightarrow> 'b::comm_monoid_add"
  assumes "i < length xs"
  shows "sum_list (map f (xs[i := x])) + f (xs ! i) = sum_list (map f xs) + f x"
proof -
  have xs: "xs = take i xs @ xs ! i # drop (Suc i) xs" using assms by (rule id_take_nth_drop)
  have "sum_list (map f xs) =
      sum_list (map f (take i xs)) + (f (xs ! i) + sum_list (map f (drop (Suc i) xs)))"
    by (subst xs) (simp del: drop_Suc)
  then show ?thesis by (simp add: upd_conv_take_nth_drop [OF assms] ac_simps)
qed

section \<open>Parameters that throw\<close>

text \<open>
  What a call into code outside the repository gives back: a value or an exception.
\<close>

primrec of_sum :: "exn + 'a \<Rightarrow> 'a outcome" where
  "of_sum (Inl e) = Throw e"
| "of_sum (Inr x) = Ret x"

lemma of_sum_simps [simp]:
  "of_sum r = Ret x \<longleftrightarrow> r = Inr x" "Ret x = of_sum r \<longleftrightarrow> r = Inr x" "of_sum r = Throw e \<longleftrightarrow> r = Inl e"
  "of_sum r \<noteq> Undef" "of_sum r \<noteq> Hang" "of_sum r \<noteq> Terminate"
  by (cases r; auto)+

end
