(* ===== verification/Config.thy ===== *)
theory Config
  imports Prelude
begin

text \<open>
  \<open>AppConfig\<close> of \<open>src/src/utils/config.hpp\<close> and \<open>config.cpp\<close>: the two groups of settings
  as records, their validating setters, and \<open>init\<close>, which fills the singleton from an INI
  file. The file system and the INI parser of Boost are parameters: whether a file exists, the
  tree read from it (\<open>Throw\<close> for a parser error), and the tree's typed \<open>get\<close>s, which throw
  \<open>ptree_error\<close> on a missing key or a value of the wrong type. The state is \<open>instance_ptr_\<close>.
  The lemmas show that a successful \<open>init\<close> leaves only valid settings, which of its failures
  is which exception, and what a failed one leaves behind.
\<close>

record database_config =
  db_pool_max_size :: int
  db_server :: string
  db_user :: string
  db_passwd :: string
  db_db :: string

record server_config =
  sv_host :: string
  sv_port :: u16
  sv_doc_root :: string
  sv_io_threads :: u32
  sv_worker_threads :: u32
  sv_jwt_secret :: string
  sv_log_file :: string
  sv_queue_limit :: u32
  sv_custom_epoch :: u64
  sv_service_id :: u64

record app_config =
  ac_server :: server_config
  ac_database :: database_config

section \<open>Setters\<close>

definition set_pool_max_size :: "int \<Rightarrow> database_config \<Rightarrow> database_config outcome" where
  "set_pool_max_size n d =
     (if n \<le> 0 then Throw (InvalidArgument ''sqlconnpool_max_size must be a positive integer.'')
      else Ret (d\<lparr>db_pool_max_size := n\<rparr>))"

definition set_db_server :: "string \<Rightarrow> database_config \<Rightarrow> database_config outcome" where
  "set_db_server v d =
     (if v = [] then Throw (InvalidArgument ''Database server cannot be empty.'') else Ret (d\<lparr>db_server := v\<rparr>))"

definition set_db_user :: "string \<Rightarrow> database_config \<Rightarrow> database_config outcome" where
  "set_db_user v d =
     (if v = [] then Throw (InvalidArgument ''Database user cannot be empty.'') else Ret (d\<lparr>db_user := v\<rparr>))"

definition set_db_passwd :: "string \<Rightarrow> database_config \<Rightarrow> database_config outcome" where
  "set_db_passwd v d =
     (if v = [] then Throw (InvalidArgument ''Database password cannot be empty.'') else Ret (d\<lparr>db_passwd := v\<rparr>))"

definition set_db_db :: "string \<Rightarrow> database_config \<Rightarrow> database_config outcome" where
  "set_db_db v d =
     (if v = [] then Throw (InvalidArgument ''Database name cannot be empty.'') else Ret (d\<lparr>db_db := v\<rparr>))"

definition set_host :: "string \<Rightarrow> server_config \<Rightarrow> server_config outcome" where
  "set_host v s =
     (if v = [] then Throw (InvalidArgument ''Server host cannot be empty.'') else Ret (s\<lparr>sv_host := v\<rparr>))"

definition set_port :: "u16 \<Rightarrow> server_config \<Rightarrow> server_config outcome" where
  "set_port v s =
     (if v = 0 then Throw (InvalidArgument ''Server port must be a non-zero value.'') else Ret (s\<lparr>sv_port := v\<rparr>))"

definition set_doc_root :: "string \<Rightarrow> server_config \<Rightarrow> server_config outcome" where
  "set_doc_root v s =
     (if v = [] then Throw (InvalidArgument ''Document root cannot be empty.'') else Ret (s\<lparr>sv_doc_root := v\<rparr>))"

definition set_io_threads :: "u32 \<Rightarrow> server_config \<Rightarrow> server_config outcome" where
  "set_io_threads v s =
     (if v = 0 then Throw (InvalidArgument ''IO threads must be a positive integer.'') else Ret (s\<lparr>sv_io_threads := v\<rparr>))"

definition set_worker_threads :: "u32 \<Rightarrow> server_config \<Rightarrow> server_config outcome" where
  "set_worker_threads v s =
     (if v = 0 then Throw (InvalidArgument ''Worker threads must be a positive integer.'')
      else Ret (s\<lparr>sv_worker_threads := v\<rparr>))"

definition set_jwt_secret :: "string \<Rightarrow> server_config \<Rightarrow> server_config outcome" where
  "set_jwt_secret v s =
     (if v = [] then Throw (InvalidArgument ''JWT secret cannot be empty.'') else Ret (s\<lparr>sv_jwt_secret := v\<rparr>))"

definition set_log_file :: "string \<Rightarrow> server_config \<Rightarrow> server_config outcome" where
  "set_log_file v s =
     (if v = [] then Throw (InvalidArgument ''Log file path cannot be empty.'') else Ret (s\<lparr>sv_log_file := v\<rparr>))"

definition set_queue_limit :: "u32 \<Rightarrow> server_config \<Rightarrow> server_config outcome" where
  "set_queue_limit v s =
     (if v = 0 then Throw (InvalidArgument ''Queue limit must be a positive integer.'') else Ret (s\<lparr>sv_queue_limit := v\<rparr>))"

definition set_custom_epoch :: "u64 \<Rightarrow> server_config \<Rightarrow> server_config outcome" where
  "set_custom_epoch v s =
     (if v = 0 then Throw (InvalidArgument ''Custom epoch must be a non-zero value.'') else Ret (s\<lparr>sv_custom_epoch := v\<rparr>))"

definition set_service_id :: "u64 \<Rightarrow> server_config \<Rightarrow> server_config outcome" where
  "set_service_id v s =
     (if v \<ge> 1024 then Throw (InvalidArgument ''Service ID must be less than 1024.'') else Ret (s\<lparr>sv_service_id := v\<rparr>))"

section \<open>Loading\<close>

text \<open>The property tree as its typed accessors.\<close>

record ptree =
  pt_int :: "string \<Rightarrow> int outcome"
  pt_string :: "string \<Rightarrow> string outcome"
  pt_u16 :: "string \<Rightarrow> u16 outcome"
  pt_u32 :: "string \<Rightarrow> u32 outcome"
  pt_u64 :: "string \<Rightarrow> u64 outcome"

text \<open>
  \<open>new AppConfig\<close>: the members' default values. \<open>service_id_\<close> has none, so its first value is
  the indeterminate one given.
\<close>

definition new_app_config :: "u64 \<Rightarrow> app_config" where
  "new_app_config indeterminate =
     \<lparr>ac_server = \<lparr>sv_host = [], sv_port = 0, sv_doc_root = [], sv_io_threads = 0, sv_worker_threads = 0,
        sv_jwt_secret = [], sv_log_file = [], sv_queue_limit = 0, sv_custom_epoch = 0,
        sv_service_id = indeterminate\<rparr>,
      ac_database = \<lparr>db_pool_max_size = 0, db_server = [], db_user = [], db_passwd = [], db_db = []\<rparr>\<rparr>"

text \<open>\<open>instance_ptr_->database_.set(config_tree.get<T>(key))\<close>, and the same for the server.\<close>

definition db_item :: "'v outcome \<Rightarrow> ('v \<Rightarrow> database_config \<Rightarrow> database_config outcome) \<Rightarrow> app_config \<Rightarrow> app_config outcome" where
  "db_item item setter c = obind item (\<lambda>v. obind (setter v (ac_database c)) (\<lambda>d. Ret (c\<lparr>ac_database := d\<rparr>)))"

definition sv_item :: "'v outcome \<Rightarrow> ('v \<Rightarrow> server_config \<Rightarrow> server_config outcome) \<Rightarrow> app_config \<Rightarrow> app_config outcome" where
  "sv_item item setter c = obind item (\<lambda>v. obind (setter v (ac_server c)) (\<lambda>d. Ret (c\<lparr>ac_server := d\<rparr>)))"

text \<open>The literal of the \<open>PLATFORM_WINDOWS\<close> build, a path of backslash-terminated parts.\<close>

definition windows_doc_root :: string where
  "windows_doc_root =
     concat (map (\<lambda>part. part @ [CHR 0x5C])
       [''D:'', ''program'', ''cpp'', ''proj'', ''tinychat_server'', ''doc'', ''assets''])"

definition config_items :: "bool \<Rightarrow> ptree \<Rightarrow> (app_config \<Rightarrow> app_config outcome) list" where
  "config_items windows t =
     [db_item (pt_int t ''Database.sqlconnpool_max_size'') set_pool_max_size,
      db_item (pt_string t ''Database.server'') set_db_server,
      db_item (pt_string t ''Database.user'') set_db_user,
      db_item (pt_string t ''Database.passwd'') set_db_passwd,
      db_item (pt_string t ''Database.db'') set_db_db,
      sv_item (pt_string t ''Server.host'') set_host,
      sv_item (pt_u16 t ''Server.port'') set_port,
      (if windows
       then sv_item (Ret windows_doc_root) set_doc_root
       else sv_item (pt_string t ''Server.doc_root'') set_doc_root),
      sv_item (pt_u32 t ''Server.io_threads'') set_io_threads,
      sv_item (pt_u32 t ''Server.worker_threads'') set_worker_threads,
      sv_item (pt_string t ''Server.jwt_secret'') set_jwt_secret,
      sv_item (pt_string t ''Server.log_file'') set_log_file,
      sv_item (pt_u32 t ''Server.queue_limit'') set_queue_limit,
      sv_item (pt_u64 t ''Server.custom_epoch'') set_custom_epoch,
      sv_item (pt_u64 t ''Server.service_id'') set_service_id]"

fun load_items :: "(app_config \<Rightarrow> app_config outcome) list \<Rightarrow> (app_config option, unit) prog" where
  "load_items [] s = (Ret (), s)"
| "load_items (f # fs) s =
     (case s of
        None \<Rightarrow> (Undef, s)
      | Some c \<Rightarrow>
          (case f c of
             Ret c' \<Rightarrow> load_items fs (Some c')
           | Throw e \<Rightarrow> (Throw e, s)
           | Undef \<Rightarrow> (Undef, s)
           | Hang \<Rightarrow> (Hang, s)
           | Terminate \<Rightarrow> (Terminate, s)))"

text \<open>\<open>catch (const pt::ptree_error& e)\<close> around the loading: other exceptions pass through.\<close>

definition config_init ::
    "(string \<Rightarrow> bool) \<Rightarrow> (string \<Rightarrow> ptree outcome) \<Rightarrow> bool \<Rightarrow> u64 \<Rightarrow> string \<Rightarrow> (app_config option, unit) prog" where
  "config_init file_exists read_ini windows indeterminate filename =
     (if \<not> file_exists filename
      then raise (RuntimeError (''Configuration file not found: '' @ filename))
      else andthen
        (try_catch (lift (read_ini filename)) (\<lambda>e. case e of
             PtreeError w \<Rightarrow> raise (RuntimeError (''Failed to parse INI file '' @ single_quoted filename @ ''. Reason: '' @ w))
           | _ \<Rightarrow> raise e))
        (\<lambda>tree. try_catch
           (andthen (modify (\<lambda>_. Some (new_app_config indeterminate))) (\<lambda>_.
              load_items (config_items windows tree)))
           (\<lambda>e. case e of
             PtreeError w \<Rightarrow> raise (RuntimeError (''Invalid configuration in '' @ single_quoted filename @ ''. Reason: '' @ w))
           | _ \<Rightarrow> raise e)))"

definition config_get :: "(app_config option, app_config) prog" where
  "config_get s =
     (case s of
        None \<Rightarrow> (Throw (RuntimeError ''AppConfig has not been initialized. Call init() first.''), s)
      | Some c \<Rightarrow> (Ret c, s))"

section \<open>Valid settings\<close>

definition valid_db :: "database_config \<Rightarrow> bool" where
  "valid_db d \<longleftrightarrow>
     0 < db_pool_max_size d \<and> db_server d \<noteq> [] \<and> db_user d \<noteq> [] \<and> db_passwd d \<noteq> [] \<and> db_db d \<noteq> []"

definition valid_sv :: "server_config \<Rightarrow> bool" where
  "valid_sv s \<longleftrightarrow>
     sv_host s \<noteq> [] \<and> sv_port s \<noteq> 0 \<and> sv_doc_root s \<noteq> [] \<and> sv_io_threads s \<noteq> 0 \<and>
     sv_worker_threads s \<noteq> 0 \<and> sv_jwt_secret s \<noteq> [] \<and> sv_log_file s \<noteq> [] \<and>
     sv_queue_limit s \<noteq> 0 \<and> sv_custom_epoch s \<noteq> 0 \<and> sv_service_id s < 1024"

definition valid_config :: "app_config \<Rightarrow> bool" where
  "valid_config c \<longleftrightarrow> valid_db (ac_database c) \<and> valid_sv (ac_server c)"

text \<open>The settings are the ones the tree gives.\<close>

definition db_from :: "ptree \<Rightarrow> database_config \<Rightarrow> bool" where
  "db_from t d \<longleftrightarrow>
     pt_int t ''Database.sqlconnpool_max_size'' = Ret (db_pool_max_size d) \<and>
     pt_string t ''Database.server'' = Ret (db_server d) \<and>
     pt_string t ''Database.user'' = Ret (db_user d) \<and>
     pt_string t ''Database.passwd'' = Ret (db_passwd d) \<and>
     pt_string t ''Database.db'' = Ret (db_db d)"

definition sv_from :: "bool \<Rightarrow> ptree \<Rightarrow> server_config \<Rightarrow> bool" where
  "sv_from windows t s \<longleftrightarrow>
     pt_string t ''Server.host'' = Ret (sv_host s) \<and>
     pt_u16 t ''Server.port'' = Ret (sv_port s) \<and>
     (if windows then Ret windows_doc_root else pt_string t ''Server.doc_root'') = Ret (sv_doc_root s) \<and>
     pt_u32 t ''Server.io_threads'' = Ret (sv_io_threads s) \<and>
     pt_u32 t ''Server.worker_threads'' = Ret (sv_worker_threads s) \<and>
     pt_string t ''Server.jwt_secret'' = Ret (sv_jwt_secret s) \<and>
     pt_string t ''Server.log_file'' = Ret (sv_log_file s) \<and>
     pt_u32 t ''Server.queue_limit'' = Ret (sv_queue_limit s) \<and>
     pt_u64 t ''Server.custom_epoch'' = Ret (sv_custom_epoch s) \<and>
     pt_u64 t ''Server.service_id'' = Ret (sv_service_id s)"

definition config_from :: "bool \<Rightarrow> ptree \<Rightarrow> app_config \<Rightarrow> bool" where
  "config_from windows t c \<longleftrightarrow> db_from t (ac_database c) \<and> sv_from windows t (ac_server c)"

lemmas setter_defs = set_pool_max_size_def set_db_server_def set_db_user_def set_db_passwd_def
  set_db_db_def set_host_def set_port_def set_doc_root_def set_io_threads_def set_worker_threads_def
  set_jwt_secret_def set_log_file_def set_queue_limit_def set_custom_epoch_def set_service_id_def

lemma load_items_Ret:
  "load_items (f # fs) (Some c) = (Ret (), s) \<longleftrightarrow> (\<exists>c'. f c = Ret c' \<and> load_items fs (Some c') = (Ret (), s))"
  by (auto split: outcome.splits)

lemma load_items_Some: "load_items fs (Some c) = (r, s) \<Longrightarrow> s \<noteq> None"
  by (induction fs arbitrary: c) (auto split: outcome.splits)

lemma setters_Ret:
  "set_pool_max_size n d = Ret d' \<longleftrightarrow> 0 < n \<and> d' = d\<lparr>db_pool_max_size := n\<rparr>"
  "set_db_server v d = Ret d' \<longleftrightarrow> v \<noteq> [] \<and> d' = d\<lparr>db_server := v\<rparr>"
  "set_db_user v d = Ret d' \<longleftrightarrow> v \<noteq> [] \<and> d' = d\<lparr>db_user := v\<rparr>"
  "set_db_passwd v d = Ret d' \<longleftrightarrow> v \<noteq> [] \<and> d' = d\<lparr>db_passwd := v\<rparr>"
  "set_db_db v d = Ret d' \<longleftrightarrow> v \<noteq> [] \<and> d' = d\<lparr>db_db := v\<rparr>"
  "set_host v s = Ret s' \<longleftrightarrow> v \<noteq> [] \<and> s' = s\<lparr>sv_host := v\<rparr>"
  "set_port p s = Ret s' \<longleftrightarrow> p \<noteq> 0 \<and> s' = s\<lparr>sv_port := p\<rparr>"
  "set_doc_root v s = Ret s' \<longleftrightarrow> v \<noteq> [] \<and> s' = s\<lparr>sv_doc_root := v\<rparr>"
  "set_io_threads k s = Ret s' \<longleftrightarrow> k \<noteq> 0 \<and> s' = s\<lparr>sv_io_threads := k\<rparr>"
  "set_worker_threads k s = Ret s' \<longleftrightarrow> k \<noteq> 0 \<and> s' = s\<lparr>sv_worker_threads := k\<rparr>"
  "set_jwt_secret v s = Ret s' \<longleftrightarrow> v \<noteq> [] \<and> s' = s\<lparr>sv_jwt_secret := v\<rparr>"
  "set_log_file v s = Ret s' \<longleftrightarrow> v \<noteq> [] \<and> s' = s\<lparr>sv_log_file := v\<rparr>"
  "set_queue_limit k s = Ret s' \<longleftrightarrow> k \<noteq> 0 \<and> s' = s\<lparr>sv_queue_limit := k\<rparr>"
  "set_custom_epoch e s = Ret s' \<longleftrightarrow> e \<noteq> 0 \<and> s' = s\<lparr>sv_custom_epoch := e\<rparr>"
  "set_service_id e s = Ret s' \<longleftrightarrow> e < 1024 \<and> s' = s\<lparr>sv_service_id := e\<rparr>"
  by (auto simp: setter_defs)

fun setters_run :: "('r \<Rightarrow> 'r outcome) list \<Rightarrow> 'r \<Rightarrow> 'r outcome" where
  "setters_run [] r = Ret r"
| "setters_run (f # fs) r = obind (f r) (setters_run fs)"

lemma run_server_setters:
  "setters_run
     [\<lambda>s. obind i6 (\<lambda>v. set_host v s), \<lambda>s. obind i7 (\<lambda>v. set_port v s), \<lambda>s. obind i8 (\<lambda>v. set_doc_root v s), 
      \<lambda>s. obind i9 (\<lambda>v. set_io_threads v s), \<lambda>s. obind i10 (\<lambda>v. set_worker_threads v s), 
      \<lambda>s. obind i11 (\<lambda>v. set_jwt_secret v s), \<lambda>s. obind i12 (\<lambda>v. set_log_file v s), \<lambda>s. obind i13 (\<lambda>v. set_queue_limit v s),
      \<lambda>s. obind i14 (\<lambda>v. set_custom_epoch v s), \<lambda>s. obind i15 (\<lambda>v. set_service_id v s)] s0 = Ret s \<longleftrightarrow>
    (i6 = Ret (sv_host s) \<and>
    i7 = Ret (sv_port s) \<and> i8 = Ret (sv_doc_root s) \<and>
    i9 = Ret (sv_io_threads s) \<and> i10 = Ret (sv_worker_threads s) \<and>
    i11 = Ret (sv_jwt_secret s) \<and> i12 = Ret (sv_log_file s) \<and>
    i13 = Ret (sv_queue_limit s) \<and> i14 = Ret (sv_custom_epoch s) \<and>
    i15 = Ret (sv_service_id s) \<and> valid_sv s)" (is "?L \<longleftrightarrow> ?R")
proof
  show "?L \<Longrightarrow> ?R" by (cases s0) (clarsimp simp: obind_eq_Ret setters_Ret valid_sv_def)
  show "?R \<Longrightarrow> ?L" by (cases s0; cases s) (simp add: obind_eq_Ret setters_Ret valid_sv_def)
qed

lemma run_database_setters:
  "setters_run
     [\<lambda>s. obind i1 (\<lambda>v. set_pool_max_size v s), \<lambda>s. obind i2 (\<lambda>v. set_db_server v s), \<lambda>s. obind i3 (\<lambda>v. set_db_user v s),
      \<lambda>s. obind i4 (\<lambda>v. set_db_passwd v s), \<lambda>s. obind i5 (\<lambda>v. set_db_db v s)] d0 = Ret d \<longleftrightarrow>
    (i1 = Ret (db_pool_max_size d) \<and> i2 = Ret (db_server d) \<and> i3 = Ret (db_user d) \<and>
     i4 = Ret (db_passwd d) \<and> i5 = Ret (db_db d) \<and> valid_db d)" (is "?L \<longleftrightarrow> ?R")
proof
  show "?L \<Longrightarrow> ?R" by (cases d0) (clarsimp simp: obind_eq_Ret setters_Ret valid_db_def)
  show "?R \<Longrightarrow> ?L" by (cases d0; cases d) (simp add: obind_eq_Ret setters_Ret valid_db_def)
qed

lemma load_items_append:
  "load_items (fs @ gs) (Some c) = (Ret (), s) \<longleftrightarrow>
     (\<exists>c'. load_items fs (Some c) = (Ret (), Some c') \<and> load_items gs (Some c') = (Ret (), s))"
  by (induction fs arbitrary: c) (auto split: outcome.splits)

definition on_db :: "(database_config \<Rightarrow> database_config outcome) \<Rightarrow> app_config \<Rightarrow> app_config outcome" where
  "on_db g c = obind (g (ac_database c)) (\<lambda>d. Ret (c\<lparr>ac_database := d\<rparr>))"

definition on_sv :: "(server_config \<Rightarrow> server_config outcome) \<Rightarrow> app_config \<Rightarrow> app_config outcome" where
  "on_sv g c = obind (g (ac_server c)) (\<lambda>d. Ret (c\<lparr>ac_server := d\<rparr>))"

lemma load_on_db:
  "load_items (map on_db gs) (Some c) = (Ret (), s) \<longleftrightarrow>
     (\<exists>d. setters_run gs (ac_database c) = Ret d \<and> s = Some (c\<lparr>ac_database := d\<rparr>))"
  by (induction gs arbitrary: c) (auto simp: on_db_def obind_eq_Ret split: outcome.splits)

lemma load_on_sv:
  "load_items (map on_sv gs) (Some c) = (Ret (), s) \<longleftrightarrow>
     (\<exists>d. setters_run gs (ac_server c) = Ret d \<and> s = Some (c\<lparr>ac_server := d\<rparr>))"
  by (induction gs arbitrary: c) (auto simp: on_sv_def obind_eq_Ret split: outcome.splits)

lemma item_on: "db_item i f = on_db (\<lambda>d. obind i (\<lambda>v. f v d))" "sv_item j g = on_sv (\<lambda>d. obind j (\<lambda>v. g v d))"
  by (simp_all add: fun_eq_iff db_item_def sv_item_def on_db_def on_sv_def obind_assoc)

lemma load_config_Ret:
  "load_items (config_items w t) (Some c0) = (Ret (), s) \<longleftrightarrow>
     (\<exists>c. s = Some c \<and> config_from w t c \<and> valid_config c)"
proof -
  define root where "root = (if w then Ret windows_doc_root else pt_string t ''Server.doc_root'')"
  have items: "config_items w t =
    map on_db [\<lambda>s. obind (pt_int t ''Database.sqlconnpool_max_size'') (\<lambda>v. set_pool_max_size v s),
      \<lambda>s. obind (pt_string t ''Database.server'') (\<lambda>v. set_db_server v s),
      \<lambda>s. obind (pt_string t ''Database.user'') (\<lambda>v. set_db_user v s),
      \<lambda>s. obind (pt_string t ''Database.passwd'') (\<lambda>v. set_db_passwd v s),
      \<lambda>s. obind (pt_string t ''Database.db'') (\<lambda>v. set_db_db v s)] @
    map on_sv [\<lambda>s. obind (pt_string t ''Server.host'') (\<lambda>v. set_host v s),
      \<lambda>s. obind (pt_u16 t ''Server.port'') (\<lambda>v. set_port v s),
      \<lambda>s. obind root (\<lambda>v. set_doc_root v s),
      \<lambda>s. obind (pt_u32 t ''Server.io_threads'') (\<lambda>v. set_io_threads v s),
      \<lambda>s. obind (pt_u32 t ''Server.worker_threads'') (\<lambda>v. set_worker_threads v s),
      \<lambda>s. obind (pt_string t ''Server.jwt_secret'') (\<lambda>v. set_jwt_secret v s),
      \<lambda>s. obind (pt_string t ''Server.log_file'') (\<lambda>v. set_log_file v s),
      \<lambda>s. obind (pt_u32 t ''Server.queue_limit'') (\<lambda>v. set_queue_limit v s),
      \<lambda>s. obind (pt_u64 t ''Server.custom_epoch'') (\<lambda>v. set_custom_epoch v s),
      \<lambda>s. obind (pt_u64 t ''Server.service_id'') (\<lambda>v. set_service_id v s)]"
    by (simp only: config_items_def item_on root_def list.map append.simps if_distrib [of "\<lambda>x. sv_item x set_doc_root"]
        split: if_split) simp
  have "(load_items (config_items w t) (Some c0) = (Ret (), s)) \<longleftrightarrow>
      (\<exists>d. (db_from t d \<and> valid_db d) \<and>
        (\<exists>e. (sv_from w t e \<and> valid_sv e) \<and> s = Some (c0\<lparr>ac_database := d, ac_server := e\<rparr>)))"
    unfolding items load_items_append load_on_db load_on_sv run_server_setters run_database_setters
      db_from_def sv_from_def root_def [symmetric]
    by (simp only: conj_assoc option.inject) fastforce
  moreover have "c0\<lparr>ac_database := d, ac_server := e\<rparr> = \<lparr>ac_server = e, ac_database = d\<rparr>" for d e
    by (cases c0) simp
  moreover have "(\<exists>c. R c) \<longleftrightarrow> (\<exists>e d. R \<lparr>ac_server = e, ac_database = d\<rparr>)" for R
    by (metis app_config.cases)
  ultimately show ?thesis
    by (simp add: config_from_def valid_config_def) blast
qed

lemma config_init_cases:
  "config_init file_exists read_ini windows indet filename s =
     (if \<not> file_exists filename then (Throw (RuntimeError (''Configuration file not found: '' @ filename)), s)
      else case read_ini filename of
          Ret t \<Rightarrow> (case load_items (config_items windows t) (Some (new_app_config indet)) of
              (r, s') \<Rightarrow> ((case r of Throw (PtreeError w) \<Rightarrow>
                  Throw (RuntimeError (''Invalid configuration in '' @ single_quoted filename @ ''. Reason: '' @ w)) | _ \<Rightarrow> r), s'))
        | Throw (PtreeError w) \<Rightarrow>
            (Throw (RuntimeError (''Failed to parse INI file '' @ single_quoted filename @ ''. Reason: '' @ w)), s)
        | Throw e \<Rightarrow> (Throw e, s)
        | Undef \<Rightarrow> (Undef, s) | Hang \<Rightarrow> (Hang, s) | Terminate \<Rightarrow> (Terminate, s))"
  by (auto simp: config_init_def raise_def lift_def modify_def andthen_def try_catch_def
      split: outcome.splits exn.splits prod.splits)

lemma config_init_Ret:
  "config_init file_exists read_ini windows indet filename s = (Ret (), s') \<longleftrightarrow>
     file_exists filename \<and>
     (\<exists>t c. read_ini filename = Ret t \<and> s' = Some c \<and> config_from windows t c \<and> valid_config c)"
proof (cases "file_exists filename")
  case True
  show ?thesis
  proof (cases "read_ini filename")
    case (Ret t)
    have "config_init file_exists read_ini windows indet filename s = (Ret (), s') \<longleftrightarrow>
        load_items (config_items windows t) (Some (new_app_config indet)) = (Ret (), s')"
      using True Ret by (auto simp: config_init_cases split: outcome.splits exn.splits prod.splits)
    then show ?thesis using True Ret by (simp add: load_config_Ret)
  qed (use True in \<open>auto simp: config_init_cases split: exn.splits\<close>)
qed (simp add: config_init_cases)

section \<open>Properties\<close>

text \<open>C25: \<open>init\<close> returns exactly when the file exists, parses, and every key is present with a
  valid value; the configuration is then the one the file gives, and every setting is valid.\<close>

theorem config_init_spec:
  "config_init file_exists read_ini windows indet filename s = (Ret (), s') \<longleftrightarrow>
     file_exists filename \<and>
     (\<exists>t c. read_ini filename = Ret t \<and> s' = Some c \<and> config_from windows t c \<and> valid_config c)"
  by (rule config_init_Ret)

text \<open>The singleton is created before its settings are read, so once the file has been parsed
  \<open>get\<close> succeeds whether \<open>init\<close> returned or threw: after a failed \<open>init\<close> it hands out a
  partly filled configuration instead of refusing.\<close>

theorem config_get_after_failed_init:
  assumes "file_exists filename" and "read_ini filename = Ret t"
    and "config_init file_exists read_ini windows indet filename s = (r, s')"
  shows "\<exists>c. config_get s' = (Ret c, s')"
proof -
  from assms have "s' \<noteq> None"
    by (auto simp: config_init_cases dest: load_items_Some split: prod.splits)
  then show ?thesis by (auto simp: config_get_def)
qed

definition demo_tree :: ptree where
  "demo_tree = \<lparr>pt_int = (\<lambda>_. Ret 20), pt_string = (\<lambda>_. Ret ''x''), pt_u16 = (\<lambda>_. Ret 0),
                pt_u32 = (\<lambda>_. Ret 6), pt_u64 = (\<lambda>_. Ret 7)\<rparr>"

theorem config_get_after_failed_init_witness:
  "\<exists>s' c. config_init (\<lambda>_. True) (\<lambda>_. Ret demo_tree) False 0 ''c.ini'' None =
      (Throw (InvalidArgument ''Server port must be a non-zero value.''), s') \<and> config_get s' = (Ret c, s')"
proof -
  obtain s' where run: "config_init (\<lambda>_. True) (\<lambda>_. Ret demo_tree) False 0 ''c.ini'' None =
      (Throw (InvalidArgument ''Server port must be a non-zero value.''), s')"
    by (simp add: config_init_cases config_items_def db_item_def sv_item_def setter_defs demo_tree_def
        new_app_config_def)
  have t: "(\<lambda>_ :: string. Ret demo_tree) ''c.ini'' = Ret demo_tree" by simp
  have e: "(\<lambda>_ :: string. True) ''c.ini''" by simp
  from config_get_after_failed_init [of "\<lambda>_. True", OF e t run] run show ?thesis by blast
qed

end
