(* ===== verification/SqlPool.thy ===== *)
theory SqlPool
  imports Config
begin

text \<open>
  The connection pool, \<open>src/src/db/sql_conn_pool.cpp\<close>, and the scoped connection
  \<open>SqlConnRAII\<close> of \<open>src/src/db/sql_conn_RAII.cpp\<close>. MySQL and its connector are a
  parameter: a record of functions from the state of the database (a type variable) to what a
  call returns and the state after it, so that every statement about a handler holds for every
  behaviour of the database, of other clients of it and of the network. The state carries a
  history of the statements issued, in order, with what each returned.

  The first half gives the operations as one thread runs them. The second half lets many
  scoped connections run their critical sections in any order.
\<close>

section \<open>The database as a parameter\<close>

type_synonym conn = nat

datatype sql_param = P_int int | P_u64 u64 | P_i64 i64 | P_str string

type_synonym bound = "(nat \<times> sql_param) list"

text \<open>A row of a result set: what the typed getters give for a column label.\<close>

record row =
  row_int :: "string \<Rightarrow> exn + int"
  row_u64 :: "string \<Rightarrow> exn + u64"
  row_str :: "string \<Rightarrow> exn + string"

text \<open>The arguments of the two overloads of \<open>driver->connect\<close> the source uses.\<close>

datatype connect_args =
    With_options string string string string bool  \<comment> \<open>host, user, password, schema, \<open>OPT_RECONNECT\<close>\<close>
  | Plain string string string  \<comment> \<open>host, user, password\<close>

record 'w mysql =
  my_driver :: "'w \<Rightarrow> bool"  \<comment> \<open>\<open>get_mysql_driver_instance()\<close> is not null\<close>
  my_connect :: "connect_args \<Rightarrow> 'w \<Rightarrow> (exn + conn) \<times> 'w"
  my_close :: "conn \<Rightarrow> 'w \<Rightarrow> (exn + unit) \<times> 'w"
  my_valid :: "conn \<Rightarrow> 'w \<Rightarrow> bool \<times> 'w"
  my_get_autocommit :: "conn \<Rightarrow> 'w \<Rightarrow> (exn + bool) \<times> 'w"
  my_set_autocommit :: "conn \<Rightarrow> bool \<Rightarrow> 'w \<Rightarrow> (exn + unit) \<times> 'w"
  my_commit :: "conn \<Rightarrow> 'w \<Rightarrow> (exn + unit) \<times> 'w"
  my_rollback :: "conn \<Rightarrow> 'w \<Rightarrow> (exn + unit) \<times> 'w"
  my_query :: "conn \<Rightarrow> string \<Rightarrow> bound \<Rightarrow> 'w \<Rightarrow> (exn + row list) \<times> 'w"
  my_update :: "conn \<Rightarrow> string \<Rightarrow> bound \<Rightarrow> 'w \<Rightarrow> (exn + int) \<times> 'w"

text \<open>
  The history: statements with their results, and messages posted to WebSocket sessions.
\<close>

datatype event =
    Autocommit conn bool "exn + unit"
  | Commit conn "exn + unit"
  | Rollback conn "exn + unit"
  | Query conn string bound "exn + row list"
  | Update conn string bound "exn + int"
  | Post nat string

section \<open>The pool\<close>

text \<open>
  \<open>smph_\<close> is null before \<open>init\<close>; afterwards it is the number of permits.
\<close>

record sql_pool =
  sp_smph :: "nat option"
  sp_max_conn :: int
  sp_queue :: "conn list"

definition new_sql_pool :: sql_pool where
  "new_sql_pool = \<lparr>sp_smph = None, sp_max_conn = 0, sp_queue = []\<rparr>"

text \<open>
  The state a handler works on: the database, the pool, the current connections \<open>sql_\<close> of
  the live scoped connections (the innermost first) and the history.
\<close>

record 'w dbs =
  db_world :: 'w
  db_pool :: sql_pool
  db_conns :: "conn list"
  db_log :: "event list"

text \<open>One call into the connector, recorded in the history.\<close>

definition db_call :: "('w \<Rightarrow> (exn + 'a) \<times> 'w) \<Rightarrow> ((exn + 'a) \<Rightarrow> event list) \<Rightarrow> (('w, 'm) dbs_scheme, 'a) prog" where
  "db_call f ev s = (case f (db_world s) of (r, w) \<Rightarrow>
     (of_sum r, s\<lparr>db_world := w, db_log := db_log s @ ev r\<rparr>))"

definition is_valid :: "'w mysql \<Rightarrow> conn \<Rightarrow> (('w, 'm) dbs_scheme, bool) prog" where
  "is_valid M c = db_call (\<lambda>w. case my_valid M c w of (b, w') \<Rightarrow> (Inr b, w')) (\<lambda>_. [])"

text \<open>The pieces of the pool that other threads can interleave.\<close>

definition sem_acquire :: "sql_pool \<Rightarrow> (unit \<times> sql_pool) outcome" where
  "sem_acquire p = (case sp_smph p of
       None \<Rightarrow> Undef
     | Some n \<Rightarrow> if n = 0 then Hang else Ret ((), p\<lparr>sp_smph := Some (n - 1)\<rparr>))"

definition sem_release :: "sql_pool \<Rightarrow> (unit \<times> sql_pool) outcome" where
  "sem_release p = (case sp_smph p of
       None \<Rightarrow> Undef
     | Some n \<Rightarrow> Ret ((), p\<lparr>sp_smph := Some (Suc n)\<rparr>))"

definition pop_conn :: "sql_pool \<Rightarrow> (conn \<times> sql_pool) outcome" where
  "pop_conn p = (case sp_queue p of
       [] \<Rightarrow> Throw (RuntimeError ''Connection pool synchronization error.'')
     | c # cs \<Rightarrow> Ret (c, p\<lparr>sp_queue := cs\<rparr>))"

definition push_conn :: "conn \<Rightarrow> sql_pool \<Rightarrow> (unit \<times> sql_pool) outcome" where
  "push_conn c p = Ret ((), p\<lparr>sp_queue := sp_queue p @ [c]\<rparr>)"

definition on_pool :: "(sql_pool \<Rightarrow> ('a \<times> sql_pool) outcome) \<Rightarrow> (('w, 'm) dbs_scheme, 'a) prog" where
  "on_pool f s = (case f (db_pool s) of
       Ret (x, p) \<Rightarrow> (Ret x, s\<lparr>db_pool := p\<rparr>)
     | Throw e \<Rightarrow> (Throw e, s)
     | Undef \<Rightarrow> (Undef, s)
     | Hang \<Rightarrow> (Hang, s)
     | Terminate \<Rightarrow> (Terminate, s))"

text \<open>\<open>SqlConnPool::getSql\<close> (private): pop, check, and connect anew when the connection is dead.\<close>

definition pool_get_sql :: "'w mysql \<Rightarrow> database_config \<Rightarrow> (('w, 'm) dbs_scheme, conn) prog" where
  "pool_get_sql M D =
     andthen (on_pool pop_conn) (\<lambda>sql.
     andthen (is_valid M sql) (\<lambda>ok.
       if ok then ret sql
       else andthen (gets (\<lambda>s. my_driver M (db_world s))) (\<lambda>driver.
         if \<not> driver then raise (RuntimeError ''MySQL driver instance is null!'')
         else let args = Plain (db_server D) (db_user D) (db_passwd D)
              in db_call (my_connect M args) (\<lambda>_. []))))"

text \<open>
  \<open>getConn\<close>: \<open>try_acquire\<close>, and when it fails \<open>acquire\<close>, which blocks until there is
  a permit; both take a permit when there is one. A thread that runs alone waits for ever.
\<close>

definition get_conn :: "'w mysql \<Rightarrow> database_config \<Rightarrow> (('w, 'm) dbs_scheme, conn) prog" where
  "get_conn M D = andthen (on_pool sem_acquire) (\<lambda>_. pool_get_sql M D)"

text \<open>\<open>freeConn\<close>; \<open>None\<close> is the null pointer.\<close>

definition free_conn :: "conn option \<Rightarrow> (('w, 'm) dbs_scheme, unit) prog" where
  "free_conn sql = (case sql of
       None \<Rightarrow> ret ()
     | Some c \<Rightarrow> andthen (on_pool (push_conn c)) (\<lambda>_. on_pool sem_release))"

text \<open>
  \<open>init\<close>: the semaphore takes the configured size, which must not exceed
  \<open>SEMAPHORE_MAX_VALUE\<close> (4096 in \<open>CMakeLists.txt\<close>), a precondition of its constructor;
  then one connection after the other.
\<close>

abbreviation (input) SEMAPHORE_MAX_VALUE :: int where "SEMAPHORE_MAX_VALUE \<equiv> 4096"

definition connection_properties :: "database_config \<Rightarrow> connect_args" where
  "connection_properties D = With_options (db_server D) (db_user D) (db_passwd D) (db_db D) True"

fun connect_all :: "'w mysql \<Rightarrow> connect_args \<Rightarrow> nat \<Rightarrow> (('w, 'm) dbs_scheme, unit) prog" where
  "connect_all M args 0 = ret ()"
| "connect_all M args (Suc n) =
     andthen (db_call (my_connect M args) (\<lambda>_. [])) (\<lambda>sql.
     andthen (on_pool (push_conn sql)) (\<lambda>_. connect_all M args n))"

definition sql_pool_init :: "'w mysql \<Rightarrow> database_config \<Rightarrow> (('w, 'm) dbs_scheme, unit) prog" where
  "sql_pool_init M D =
     andthen (modify (\<lambda>s. s\<lparr>db_pool := (db_pool s)\<lparr>sp_max_conn := db_pool_max_size D\<rparr>\<rparr>)) (\<lambda>_.
     if db_pool_max_size D < 0 \<or> db_pool_max_size D > SEMAPHORE_MAX_VALUE then undef
     else andthen (modify (\<lambda>s. s\<lparr>db_pool := (db_pool s)\<lparr>sp_smph := Some (nat (db_pool_max_size D))\<rparr>\<rparr>)) (\<lambda>_.
     andthen (gets (\<lambda>s. my_driver M (db_world s))) (\<lambda>driver.
     if \<not> driver then raise (RuntimeError ''MySQL driver instance is null!'')
     else connect_all M (connection_properties D) (nat (db_pool_max_size D)))))"

text \<open>\<open>closePool\<close>: the front connection is closed, then popped, until the queue is empty.\<close>

fun close_loop :: "'w mysql \<Rightarrow> conn list \<Rightarrow> (('w, 'm) dbs_scheme, unit) prog" where
  "close_loop M [] = ret ()"
| "close_loop M (c # cs) =
     andthen (db_call (my_close M c) (\<lambda>_. [])) (\<lambda>_.
     andthen (on_pool pop_conn) (\<lambda>_. close_loop M cs))"

definition close_pool :: "'w mysql \<Rightarrow> (('w, 'm) dbs_scheme, unit) prog" where
  "close_pool M = andthen (gets (\<lambda>s. sp_queue (db_pool s))) (close_loop M)"

section \<open>The scoped connection\<close>

definition top_conn :: "(('w, 'm) dbs_scheme, conn) prog" where
  "top_conn = gets (\<lambda>s. hd (db_conns s))"

definition raii_ctor :: "'w mysql \<Rightarrow> database_config \<Rightarrow> (('w, 'm) dbs_scheme, unit) prog" where
  "raii_ctor M D = andthen (get_conn M D) (\<lambda>c. modify (\<lambda>s. s\<lparr>db_conns := c # db_conns s\<rparr>))"

text \<open>\<open>SqlConnRAII::getSql\<close>: a dead connection is replaced, not returned.\<close>

definition raii_get_sql :: "'w mysql \<Rightarrow> database_config \<Rightarrow> (('w, 'm) dbs_scheme, conn) prog" where
  "raii_get_sql M D =
     andthen top_conn (\<lambda>c.
     andthen (is_valid M c) (\<lambda>ok.
       if ok then ret c
       else andthen (get_conn M D) (\<lambda>c'.
            andthen (modify (\<lambda>s. s\<lparr>db_conns := c' # tl (db_conns s)\<rparr>)) (\<lambda>_. ret c'))))"

definition begin_transaction :: "'w mysql \<Rightarrow> (('w, 'm) dbs_scheme, unit) prog" where
  "begin_transaction M =
     andthen top_conn (\<lambda>c. db_call (my_set_autocommit M c False) (\<lambda>r. [Autocommit c False r]))"

definition commit :: "'w mysql \<Rightarrow> (('w, 'm) dbs_scheme, unit) prog" where
  "commit M = andthen top_conn (\<lambda>c. db_call (my_commit M c) (\<lambda>r. [Commit c r]))"

definition rollback :: "'w mysql \<Rightarrow> (('w, 'm) dbs_scheme, unit) prog" where
  "rollback M = andthen top_conn (\<lambda>c. db_call (my_rollback M c) (\<lambda>r. [Rollback c r]))"

text \<open>\<open>bind_all_param\<close>: the parameters are numbered from the given index.\<close>

fun bind_all_param :: "nat \<Rightarrow> sql_param list \<Rightarrow> bound" where
  "bind_all_param idx [] = []"
| "bind_all_param idx (x # xs) = (idx, x) # bind_all_param (Suc idx) xs"

definition execute_query ::
    "'w mysql \<Rightarrow> database_config \<Rightarrow> string \<Rightarrow> sql_param list \<Rightarrow> (('w, 'm) dbs_scheme, row list) prog" where
  "execute_query M D sql ps =
     andthen (raii_get_sql M D) (\<lambda>c. let b = bind_all_param 1 ps in
       db_call (my_query M c sql b) (\<lambda>r. [Query c sql b r]))"

definition execute_update ::
    "'w mysql \<Rightarrow> database_config \<Rightarrow> string \<Rightarrow> sql_param list \<Rightarrow> (('w, 'm) dbs_scheme, int) prog" where
  "execute_update M D sql ps =
     andthen (raii_get_sql M D) (\<lambda>c. let b = bind_all_param 1 ps in
       db_call (my_update M c sql b) (\<lambda>r. [Update c sql b r]))"

text \<open>
  The destructor: a live connection is put back to auto-commit, if it is not there, and
  returned; a dead one is dropped without returning its permit.
\<close>

definition raii_dtor :: "'w mysql \<Rightarrow> (('w, 'm) dbs_scheme, unit) prog" where
  "raii_dtor M =
     andthen top_conn (\<lambda>c.
     andthen (is_valid M c) (\<lambda>ok.
     andthen
       (if ok then
          andthen (db_call (my_get_autocommit M c) (\<lambda>_. [])) (\<lambda>auto.
          andthen
            (if \<not> auto then db_call (my_set_autocommit M c True) (\<lambda>r. [Autocommit c True r]) else ret ())
            (\<lambda>_. free_conn (Some c)))
        else ret ())
       (\<lambda>_. modify (\<lambda>s. s\<lparr>db_conns := tl (db_conns s)\<rparr>))))"

text \<open>A scope that declares an \<open>SqlConnRAII conn\<close> before the statements of \<open>body\<close>.\<close>

definition with_conn :: "'w mysql \<Rightarrow> database_config \<Rightarrow> (('w, 'm) dbs_scheme, 'a) prog \<Rightarrow> (('w, 'm) dbs_scheme, 'a) prog" where
  "with_conn M D body = andthen (raii_ctor M D) (\<lambda>_. with_dtor body (raii_dtor M))"

section \<open>Many scoped connections at once\<close>

text \<open>
  One entry per scoped connection: not yet started or gone (\<open>Idle\<close>), between \<open>acquire\<close> and
  the locked part of \<open>getSql\<close> (\<open>Acquired\<close>), owner of a connection (\<open>Holding\<close>), between the
  \<open>acquire\<close> and the locked part of a second \<open>getConn\<close> that is to replace a dead connection
  (\<open>Replacing\<close>; when it fails the first one is still owned), between the push and the release of \<open>freeConn\<close> (\<open>Releasing\<close>), or in the branch of \<open>getSql\<close>
  that the source calls a synchronization error (\<open>OutOfSync\<close>). New connections are new
  objects; \<open>sh_leaked\<close> counts the permits nobody will return.
\<close>

datatype client = Idle | Acquired | Holding conn | Replacing conn | Releasing | OutOfSync

record shared =
  sh_pool :: sql_pool
  sh_clients :: "client list"
  sh_next :: conn
  sh_leaked :: nat

definition shared_init :: "nat \<Rightarrow> nat \<Rightarrow> shared" where
  "shared_init cap k =
     \<lparr>sh_pool = \<lparr>sp_smph = Some cap, sp_max_conn = int cap, sp_queue = [0..<cap]\<rparr>,
      sh_clients = replicate k Idle, sh_next = cap, sh_leaked = 0\<rparr>"

inductive sql_step :: "shared \<Rightarrow> shared \<Rightarrow> bool" where
  acquire: "i < length (sh_clients s) \<Longrightarrow> sh_clients s ! i = Idle \<Longrightarrow> sem_acquire (sh_pool s) = Ret ((), p) \<Longrightarrow>
    sql_step s (s\<lparr>sh_pool := p, sh_clients := (sh_clients s)[i := Acquired]\<rparr>)"
| pop: "i < length (sh_clients s) \<Longrightarrow> sh_clients s ! i = Acquired \<Longrightarrow> pop_conn (sh_pool s) = Ret (c, p) \<Longrightarrow>
    sql_step s (s\<lparr>sh_pool := p, sh_clients := (sh_clients s)[i := Holding c]\<rparr>)"
| pop_reconnect: "i < length (sh_clients s) \<Longrightarrow> sh_clients s ! i = Acquired \<Longrightarrow> pop_conn (sh_pool s) = Ret (c, p) \<Longrightarrow>
    sql_step s (s\<lparr>sh_pool := p, sh_clients := (sh_clients s)[i := Holding (sh_next s)], sh_next := Suc (sh_next s)\<rparr>)"
| pop_fail: "i < length (sh_clients s) \<Longrightarrow> sh_clients s ! i = Acquired \<Longrightarrow> pop_conn (sh_pool s) = Ret (c, p) \<Longrightarrow>
    sql_step s (s\<lparr>sh_pool := p, sh_clients := (sh_clients s)[i := Idle], sh_leaked := Suc (sh_leaked s)\<rparr>)"
| pop_empty: "i < length (sh_clients s) \<Longrightarrow> sh_clients s ! i = Acquired \<Longrightarrow> pop_conn (sh_pool s) = Throw e \<Longrightarrow>
    sql_step s (s\<lparr>sh_clients := (sh_clients s)[i := OutOfSync]\<rparr>)"
| reacquire: "i < length (sh_clients s) \<Longrightarrow> sh_clients s ! i = Holding c \<Longrightarrow> sem_acquire (sh_pool s) = Ret ((), p) \<Longrightarrow>
    sql_step s (s\<lparr>sh_pool := p, sh_clients := (sh_clients s)[i := Replacing c]\<rparr>)"
| repop: "i < length (sh_clients s) \<Longrightarrow> sh_clients s ! i = Replacing c \<Longrightarrow> pop_conn (sh_pool s) = Ret (d, p) \<Longrightarrow>
    sql_step s (s\<lparr>sh_pool := p, sh_clients := (sh_clients s)[i := Holding d], sh_leaked := Suc (sh_leaked s)\<rparr>)"
| repop_reconnect: "i < length (sh_clients s) \<Longrightarrow> sh_clients s ! i = Replacing c \<Longrightarrow> pop_conn (sh_pool s) = Ret (d, p) \<Longrightarrow>
    sql_step s (s\<lparr>sh_pool := p, sh_clients := (sh_clients s)[i := Holding (sh_next s)], sh_next := Suc (sh_next s),
      sh_leaked := Suc (sh_leaked s)\<rparr>)"
| repop_fail: "i < length (sh_clients s) \<Longrightarrow> sh_clients s ! i = Replacing c \<Longrightarrow> pop_conn (sh_pool s) = Ret (d, p) \<Longrightarrow>
    sql_step s (s\<lparr>sh_pool := p, sh_clients := (sh_clients s)[i := Holding c], sh_leaked := Suc (sh_leaked s)\<rparr>)"
| repop_empty: "i < length (sh_clients s) \<Longrightarrow> sh_clients s ! i = Replacing c \<Longrightarrow> pop_conn (sh_pool s) = Throw e \<Longrightarrow>
    sql_step s (s\<lparr>sh_clients := (sh_clients s)[i := OutOfSync]\<rparr>)"
| push: "i < length (sh_clients s) \<Longrightarrow> sh_clients s ! i = Holding c \<Longrightarrow> push_conn c (sh_pool s) = Ret ((), p) \<Longrightarrow>
    sql_step s (s\<lparr>sh_pool := p, sh_clients := (sh_clients s)[i := Releasing]\<rparr>)"
| release: "i < length (sh_clients s) \<Longrightarrow> sh_clients s ! i = Releasing \<Longrightarrow> sem_release (sh_pool s) = Ret ((), p) \<Longrightarrow>
    sql_step s (s\<lparr>sh_pool := p, sh_clients := (sh_clients s)[i := Idle]\<rparr>)"
| abandon: "i < length (sh_clients s) \<Longrightarrow> sh_clients s ! i = Holding c \<Longrightarrow>
    sql_step s (s\<lparr>sh_clients := (sh_clients s)[i := Idle], sh_leaked := Suc (sh_leaked s)\<rparr>)"

inductive sql_reach :: "nat \<Rightarrow> nat \<Rightarrow> shared \<Rightarrow> bool" for cap k where
  start: "sql_reach cap k (shared_init cap k)"
| step: "sql_reach cap k s \<Longrightarrow> sql_step s t \<Longrightarrow> sql_reach cap k t"

text \<open>What a client has taken: a permit without its connection, permits, a connection.\<close>

fun sem_token :: "client \<Rightarrow> nat" where
  "sem_token Acquired = 1" | "sem_token (Replacing c) = 1" | "sem_token Releasing = 1" | "sem_token _ = 0"

fun sem_permit :: "client \<Rightarrow> nat" where
  "sem_permit Acquired = 1" | "sem_permit (Holding c) = 1" | "sem_permit (Replacing c) = 2"
| "sem_permit Releasing = 1" | "sem_permit _ = 0"

fun owned :: "client \<Rightarrow> conn option" where
  "owned (Holding c) = Some c" | "owned (Replacing c) = Some c" | "owned _ = None"

definition conn_holds :: "conn \<Rightarrow> client \<Rightarrow> nat" where
  "conn_holds c w = (if owned w = Some c then 1 else 0)"

lemma conn_holds_simps [simp]:
  "conn_holds c Idle = 0" "conn_holds c Acquired = 0" "conn_holds c Releasing = 0" "conn_holds c OutOfSync = 0"
  "conn_holds c (Holding d) = (if d = c then 1 else 0)" "conn_holds c (Replacing d) = (if d = c then 1 else 0)"
  by (simp_all add: conn_holds_def)

definition sql_inv :: "nat \<Rightarrow> shared \<Rightarrow> bool" where
  "sql_inv cap s \<longleftrightarrow> (\<exists>n. sp_smph (sh_pool s) = Some n \<and>
     length (sp_queue (sh_pool s)) = n + sum_list (map sem_token (sh_clients s)) \<and>
     n + sum_list (map sem_permit (sh_clients s)) + sh_leaked s = cap \<and>
     (\<forall>c. count_list (sp_queue (sh_pool s)) c + sum_list (map (conn_holds c) (sh_clients s)) \<le>
            (if c < sh_next s then 1 else 0)) \<and>
     OutOfSync \<notin> set (sh_clients s))"

lemma count_list_upt: "count_list [0..<n] c = (if c < n then 1 else 0)"
  by (induction n) auto

lemma sql_inv_init: "sql_inv cap (shared_init cap k)"
  by (auto simp: sql_inv_def shared_init_def count_list_upt sum_list_replicate map_replicate_const
      simp del: upt_Suc)

text \<open>How one client's step moves the sums of the invariant.\<close>

lemma sql_inv_update:
  assumes inv: "sql_inv cap s" and i: "i < length (sh_clients s)"
    and t: "sh_clients t = (sh_clients s)[i := w]" "sp_smph (sh_pool t) = Some m" "w \<noteq> OutOfSync"
    and tok: "\<And>n. sp_smph (sh_pool s) = Some n \<Longrightarrow>
      length (sp_queue (sh_pool t)) + n + sem_token (sh_clients s ! i) = m + length (sp_queue (sh_pool s)) + sem_token w"
    and per: "\<And>n. sp_smph (sh_pool s) = Some n \<Longrightarrow>
      m + sem_permit w + sh_leaked t = n + sem_permit (sh_clients s ! i) + sh_leaked s"
    and own: "\<And>c. count_list (sp_queue (sh_pool t)) c + conn_holds c w + (if c < sh_next s then 1 else 0)
      \<le> count_list (sp_queue (sh_pool s)) c + conn_holds c (sh_clients s ! i) + (if c < sh_next t then 1 else 0)"
  shows "sql_inv cap t"
proof -
  from inv obtain n where n: "sp_smph (sh_pool s) = Some n"
    "length (sp_queue (sh_pool s)) = n + sum_list (map sem_token (sh_clients s))"
    "n + sum_list (map sem_permit (sh_clients s)) + sh_leaked s = cap"
    "OutOfSync \<notin> set (sh_clients s)"
    and c: "\<And>c. count_list (sp_queue (sh_pool s)) c + sum_list (map (conn_holds c) (sh_clients s))
      \<le> (if c < sh_next s then 1 else 0)"
    by (auto simp: sql_inv_def)
  note upd = sum_list_map_update [OF i, of _ w]
  have "length (sp_queue (sh_pool t)) = m + sum_list (map sem_token (sh_clients t))"
    using upd [of sem_token] tok [OF n(1)] n(2) t(1) by simp
  moreover have "m + sum_list (map sem_permit (sh_clients t)) + sh_leaked t = cap"
    using upd [of sem_permit] per [OF n(1)] n(3) t(1) by simp
  moreover have "count_list (sp_queue (sh_pool t)) c + sum_list (map (conn_holds c) (sh_clients t))
      \<le> (if c < sh_next t then 1 else 0)" for c
    using upd [of "conn_holds c"] own [of c] c [of c] t(1) by simp
  moreover have "OutOfSync \<notin> set (sh_clients t)"
    using n(4) t(1,3) set_update_subset_insert [of "sh_clients s" i w] by auto
  ultimately show ?thesis using t(2) by (auto simp: sql_inv_def)
qed

lemma sql_inv_Acquired:
  assumes "sql_inv cap s" "i < length (sh_clients s)" "sem_token (sh_clients s ! i) = 1"
  shows "sp_queue (sh_pool s) \<noteq> []"
  using assms nth_mem [of i "sh_clients s"] by (force simp: sql_inv_def)

lemma sql_inv_smph: "sql_inv cap s \<Longrightarrow> \<exists>n. sp_smph (sh_pool s) = Some n"
  by (auto simp: sql_inv_def)

lemmas pool_step_defs = sem_acquire_def sem_release_def pop_conn_def push_conn_def

lemma sql_step_inv: "sql_step s t \<Longrightarrow> sql_inv cap s \<Longrightarrow> sql_inv cap t"
proof (induction rule: sql_step.induct)
  case (acquire i s p)
  then obtain n where "sp_smph (sh_pool s) = Some (Suc n)" "p = (sh_pool s)\<lparr>sp_smph := Some n\<rparr>"
    by (auto simp: sem_acquire_def gr0_conv_Suc split: option.splits if_splits)
  with acquire show ?case by - (rule sql_inv_update [where s = s and i = i and w = Acquired and m = n], auto)
next
  case (pop i s c p)
  then obtain n where "sp_smph (sh_pool s) = Some n" using sql_inv_smph by blast
  with pop show ?case by - (rule sql_inv_update [where s = s and i = i and w = "Holding c" and m = n], auto simp: pop_conn_def split: list.splits)
next
  case (pop_reconnect i s c p)
  obtain n where n: "sp_smph (sh_pool s) = Some n"
    using sql_inv_smph [OF pop_reconnect.prems] by blast
  have "count_list (sp_queue (sh_pool s)) (sh_next s) = 0"
    using pop_reconnect.prems by (auto simp: sql_inv_def dest: spec [of _ "sh_next s"])
  with n pop_reconnect show ?case
    by - (rule sql_inv_update [where s = s and i = i and w = "Holding (sh_next s)" and m = n], auto simp: pop_conn_def split: list.splits if_splits)
next
  case (pop_fail i s c p)
  then obtain n where "sp_smph (sh_pool s) = Some n" using sql_inv_smph by blast
  with pop_fail show ?case by - (rule sql_inv_update [where s = s and i = i and w = Idle and m = n], auto simp: pop_conn_def split: list.splits)
next
  case (pop_empty i s e)
  then show ?case using sql_inv_Acquired by (force simp: pop_conn_def split: list.splits)
next
  case (reacquire i s c p)
  then obtain n where "sp_smph (sh_pool s) = Some (Suc n)" "p = (sh_pool s)\<lparr>sp_smph := Some n\<rparr>"
    by (auto simp: sem_acquire_def gr0_conv_Suc split: option.splits if_splits)
  with reacquire show ?case by - (rule sql_inv_update [where s = s and i = i and w = "Replacing c" and m = n], auto)
next
  case (repop i s c d p)
  then obtain n where "sp_smph (sh_pool s) = Some n" using sql_inv_smph by blast
  with repop show ?case by - (rule sql_inv_update [where s = s and i = i and w = "Holding d" and m = n], auto simp: pop_conn_def split: list.splits)
next
  case (repop_reconnect i s c d p)
  obtain n where n: "sp_smph (sh_pool s) = Some n"
    using sql_inv_smph [OF repop_reconnect.prems] by blast
  have "count_list (sp_queue (sh_pool s)) (sh_next s) = 0"
    using repop_reconnect.prems by (auto simp: sql_inv_def dest: spec [of _ "sh_next s"])
  with n repop_reconnect show ?case
    by - (rule sql_inv_update [where s = s and i = i and w = "Holding (sh_next s)" and m = n], auto simp: pop_conn_def split: list.splits if_splits)
next
  case (repop_fail i s c d p)
  then obtain n where "sp_smph (sh_pool s) = Some n" using sql_inv_smph by blast
  with repop_fail show ?case by - (rule sql_inv_update [where s = s and i = i and w = "Holding c" and m = n], auto simp: pop_conn_def split: list.splits)
next
  case (repop_empty i s c e)
  then show ?case using sql_inv_Acquired by (force simp: pop_conn_def split: list.splits)
next
  case (push i s c p)
  then obtain n where "sp_smph (sh_pool s) = Some n" using sql_inv_smph by blast
  with push show ?case by - (rule sql_inv_update [where s = s and i = i and w = Releasing and m = n], auto simp: push_conn_def)
next
  case (release i s p)
  then obtain n where "sp_smph (sh_pool s) = Some n" using sql_inv_smph by blast
  with release show ?case by - (rule sql_inv_update [where s = s and i = i and w = Idle and m = "Suc n"], auto simp: sem_release_def)
next
  case (abandon i s c)
  then obtain n where "sp_smph (sh_pool s) = Some n" using sql_inv_smph by blast
  with abandon show ?case by - (rule sql_inv_update [where s = s and i = i and w = Idle and m = n], auto)
qed

lemma sql_reach_inv: "sql_reach cap k s \<Longrightarrow> sql_inv cap s"
  by (induction rule: sql_reach.induct) (auto intro: sql_inv_init sql_step_inv)

section \<open>Balance of the operations\<close>

text \<open>
  With connections that stay alive, an operation is balanced when, however it ends, it leaves
  as many permits and queued connections as it found and the same scoped connections open. A
  scope is balanced when its body is, so every handler is.
\<close>

definition healthy :: "'w mysql \<Rightarrow> bool" where
  "healthy M \<longleftrightarrow> (\<forall>c w. fst (my_valid M c w)) \<and> (\<forall>c w. \<exists>b. fst (my_get_autocommit M c w) = Inr b) \<and>
     (\<forall>c b w. fst (my_set_autocommit M c b w) = Inr ())"

definition ends :: "'a outcome \<Rightarrow> bool" where
  "ends r \<longleftrightarrow> (\<exists>x. r = Ret x) \<or> (\<exists>e. r = Throw e)"

lemma ends_simps [simp]: "ends (Ret x)" "ends (Throw e)" "\<not> ends Undef" "\<not> ends Hang" "\<not> ends Terminate"
  by (simp_all add: ends_def)

text \<open>No thread is between its semaphore and its queue operation: as many permits as connections.\<close>

definition pool_ok :: "('w, 'm) dbs_scheme \<Rightarrow> bool" where
  "pool_ok s \<longleftrightarrow> sp_smph (db_pool s) = Some (length (sp_queue (db_pool s)))"

definition same_pool :: "('w, 'm) dbs_scheme \<Rightarrow> ('w, 'm) dbs_scheme \<Rightarrow> bool" where
  "same_pool s t \<longleftrightarrow> sp_smph (db_pool t) = sp_smph (db_pool s) \<and>
     length (sp_queue (db_pool t)) = length (sp_queue (db_pool s)) \<and> db_conns t = db_conns s"

lemma same_pool_trans: "same_pool s t \<Longrightarrow> same_pool t u \<Longrightarrow> same_pool s u"
  by (simp add: same_pool_def)

lemma same_pool_ok: "same_pool s t \<Longrightarrow> pool_ok s \<Longrightarrow> pool_ok t"
  by (simp add: same_pool_def pool_ok_def)

definition balanced :: "(('w, 'm) dbs_scheme, 'a) prog \<Rightarrow> bool" where
  "balanced m \<longleftrightarrow> (\<forall>s r t. pool_ok s \<longrightarrow> m s = (r, t) \<longrightarrow> ends r \<longrightarrow> same_pool s t)"

named_theorems balanced_intros "operations that leave the pool as they found it"

lemma balanced_plain [balanced_intros]:
  "balanced (ret x)" "balanced (raise e)" "balanced undef" "balanced (lift q)" "balanced (gets f)"
  by (simp_all add: balanced_def same_pool_def ret_def raise_def undef_def lift_def gets_def)

lemma balanced_andthen [balanced_intros]:
  assumes "balanced m" "\<And>x. balanced (f x)"
  shows "balanced (andthen m f)"
  unfolding balanced_def
proof (intro allI impI)
  fix s r t assume ok: "pool_ok s" and run: "andthen m f s = (r, t)" "ends r"
  obtain q u where m: "m s = (q, u)" by (cases "m s")
  show "same_pool s t"
  proof (cases q)
    case (Ret x)
    with m run(1) have "f x u = (r, t)" by (simp add: andthen_def)
    with assms m Ret run(2) ok show ?thesis
      using same_pool_trans [of s u t] same_pool_ok [of s u] unfolding balanced_def by (metis ends_simps(1))
  next
    case (Throw e)
    with assms(1) m run ok show ?thesis by (auto simp: andthen_def balanced_def)
  qed (use m run in \<open>auto simp: andthen_def\<close>)
qed

lemma balanced_try_catch [balanced_intros]:
  assumes "balanced m" "\<And>e. balanced (h e)"
  shows "balanced (try_catch m h)"
  unfolding balanced_def
proof (intro allI impI)
  fix s r t assume ok: "pool_ok s" and run: "try_catch m h s = (r, t)" "ends r"
  obtain q u where m: "m s = (q, u)" by (cases "m s")
  show "same_pool s t"
  proof (cases q)
    case (Throw e)
    with m run(1) have "h e u = (r, t)" by (simp add: try_catch_def)
    with assms m Throw run(2) ok show ?thesis
      using same_pool_trans [of s u t] same_pool_ok [of s u] unfolding balanced_def by (metis ends_simps(2))
  next
    case (Ret x)
    with assms(1) m run ok show ?thesis by (auto simp: try_catch_def balanced_def)
  qed (use m run in \<open>auto simp: try_catch_def\<close>)
qed

lemma balanced_if [balanced_intros]: "balanced m \<Longrightarrow> balanced n \<Longrightarrow> balanced (if b then m else n)"
  by simp

lemma balanced_option [balanced_intros]:
  "balanced m \<Longrightarrow> (\<And>x. balanced (f x)) \<Longrightarrow> balanced (case v of None \<Rightarrow> m | Some x \<Rightarrow> f x)"
  by (cases v) auto

lemma balanced_list [balanced_intros]:
  "balanced m \<Longrightarrow> (\<And>x xs. balanced (f x xs)) \<Longrightarrow> balanced (case v of [] \<Rightarrow> m | x # xs \<Rightarrow> f x xs)"
  by (cases v) auto

lemma balanced_db_call [balanced_intros]: "balanced (db_call f ev)"
  by (auto simp: balanced_def same_pool_def db_call_def split: prod.splits)

lemma balanced_top_conn [balanced_intros]: "balanced top_conn"
  unfolding top_conn_def by (intro balanced_intros)

lemma healthy_valid: "healthy M \<Longrightarrow> is_valid M c s = (Ret True, s\<lparr>db_world := snd (my_valid M c (db_world s))\<rparr>)"
  by (auto simp: healthy_def is_valid_def db_call_def split: prod.splits) (metis fst_conv)+

lemma balanced_raii_get_sql: "healthy M \<Longrightarrow> balanced (raii_get_sql M D)"
  by (auto simp: balanced_def raii_get_sql_def top_conn_def andthen_def gets_def healthy_valid ret_def same_pool_def)

lemma balanced_statements [balanced_intros]:
  "balanced (begin_transaction M)" "balanced (commit M)" "balanced (rollback M)"
  unfolding begin_transaction_def commit_def rollback_def by (intro balanced_intros)+

lemma balanced_execute [balanced_intros]:
  "healthy M \<Longrightarrow> balanced (execute_query M D sql ps)" "healthy M \<Longrightarrow> balanced (execute_update M D sql ps)"
  unfolding execute_query_def execute_update_def Let_def by (intro balanced_intros balanced_raii_get_sql; assumption)+

text \<open>A scope, with live connections.\<close>

lemma healthy_ctor:
  assumes "healthy M" "sp_smph (db_pool s) = Some (Suc n)" "sp_queue (db_pool s) = c # cs"
  shows "raii_ctor M D s = (Ret (), s\<lparr>db_pool := (db_pool s)\<lparr>sp_smph := Some n, sp_queue := cs\<rparr>,
     db_world := snd (my_valid M c (db_world s)), db_conns := c # db_conns s\<rparr>)"
  using assms
  by (simp add: raii_ctor_def get_conn_def pool_get_sql_def andthen_def on_pool_def sem_acquire_def
      pop_conn_def healthy_valid ret_def modify_def)

lemma ctor_outcome:
  assumes "healthy M" "pool_ok s"
  obtains (Hang) "fst (raii_ctor M D s) = Hang"
  | (Ret) n c cs where "sp_smph (db_pool s) = Some (Suc n)" "sp_queue (db_pool s) = c # cs"
proof (cases "sp_queue (db_pool s)")
  case Nil
  with assms(2) show thesis
    by (intro Hang) (simp add: pool_ok_def raii_ctor_def get_conn_def andthen_def on_pool_def sem_acquire_def)
next
  case (Cons c cs)
  with assms(2) show thesis by (intro Ret) (simp_all add: pool_ok_def)
qed

lemma healthy_dtor:
  assumes "healthy M" "db_conns s = c # rest" "sp_smph (db_pool s) = Some n"
  shows "\<exists>w evs. raii_dtor M s = (Ret (), s\<lparr>db_world := w, db_log := db_log s @ evs,
     db_pool := (db_pool s)\<lparr>sp_queue := sp_queue (db_pool s) @ [c], sp_smph := Some (Suc n)\<rparr>, db_conns := rest\<rparr>)"
proof -
  let ?w = "snd (my_valid M c (db_world s))"
  obtain b w1 where g: "my_get_autocommit M c ?w = (Inr b, w1)"
    using assms(1) by (metis healthy_def prod.collapse)
  obtain w2 where a: "my_set_autocommit M c True w1 = (Inr (), w2)"
    using assms(1) by (metis healthy_def prod.collapse)
  show ?thesis
  proof (intro exI)
    show "raii_dtor M s = (Ret (), s\<lparr>db_world := if b then w1 else w2,
      db_log := db_log s @ (if b then [] else [Autocommit c True (Inr ())]),
      db_pool := (db_pool s)\<lparr>sp_queue := sp_queue (db_pool s) @ [c], sp_smph := Some (Suc n)\<rparr>, db_conns := rest\<rparr>)"
      using assms g a
      by (simp add: raii_dtor_def top_conn_def gets_def andthen_def healthy_valid ret_def db_call_def
          free_conn_def on_pool_def push_conn_def sem_release_def modify_def)
  qed
qed

lemma with_dtor_ends:
  "with_dtor m d s = (r, t) \<Longrightarrow> ends r \<Longrightarrow> \<exists>u. m s = (r, u) \<and> d u = (Ret (), t)"
  by (auto simp: with_dtor_def split: prod.splits outcome.splits)

lemma balanced_with_conn [balanced_intros]:
  assumes "healthy M" "balanced body"
  shows "balanced (with_conn M D body)"
  unfolding balanced_def
proof (intro allI impI)
  fix s r t assume ok: "pool_ok s" and run: "with_conn M D body s = (r, t)" "ends r"
  from assms(1) ok show "same_pool s t"
  proof (cases rule: ctor_outcome [where D = D])
    case Hang
    with run show ?thesis by (auto simp: with_conn_def andthen_def split: prod.splits outcome.splits)
  next
    case (Ret n c cs)
    let ?u = "s\<lparr>db_pool := (db_pool s)\<lparr>sp_smph := Some n, sp_queue := cs\<rparr>,
      db_world := snd (my_valid M c (db_world s)), db_conns := c # db_conns s\<rparr>"
    have "with_dtor body (raii_dtor M) ?u = (r, t)"
      using run(1) by (simp add: with_conn_def andthen_def healthy_ctor [OF assms(1) Ret])
    from with_dtor_ends [OF this run(2)] obtain v
      where v: "body ?u = (r, v)" "raii_dtor M v = (Ret (), t)" by auto
    have "pool_ok ?u" using ok Ret by (simp add: pool_ok_def)
    with assms(2) v(1) run(2) have uv: "same_pool ?u v" unfolding balanced_def by metis
    then have "db_conns v = c # db_conns s" "sp_smph (db_pool v) = Some n"
      by (auto simp: same_pool_def)
    from healthy_dtor [OF assms(1) this] v(2) uv Ret show ?thesis
      by (auto simp: same_pool_def)
  qed
qed

section \<open>What a step can do to the history\<close>

text \<open>
  Rules for statements about the history that hold for every database: each covers all ways
  a step can end, with the state of the database, the pool and the current connections
  arbitrary afterwards. They are introduction rules for \<^const>\<open>wp\<close>.
\<close>

abbreviation (input) moved ::
    "('w, 'm) dbs_scheme \<Rightarrow> 'w \<Rightarrow> sql_pool \<Rightarrow> conn list \<Rightarrow> event list \<Rightarrow> ('w, 'm) dbs_scheme" where
  "moved s w p cs evs \<equiv> s\<lparr>db_world := w, db_pool := p, db_conns := cs, db_log := db_log s @ evs\<rparr>"

abbreviation (input) moved_to ::
    "('w, 'm) dbs_scheme \<Rightarrow> ('w, 'm) dbs_scheme \<Rightarrow> bool" where
  "moved_to s t \<equiv> t = s\<lparr>db_world := db_world t, db_pool := db_pool t, db_conns := db_conns t\<rparr>"

definition quiet :: "(('w, 'm) dbs_scheme, 'a) prog \<Rightarrow> bool" where
  "quiet m \<longleftrightarrow> (\<forall>s. moved_to s (snd (m s)))"

named_theorems wp_intros "rules for statements about the history"

lemma moved_to_trans:
  fixes s :: "('w, 'm) dbs_scheme"
  assumes "moved_to s t" "moved_to t u"
  shows "moved_to s u"
  using assms by (cases s, cases t, cases u) simp

lemma moved_to_refl: "moved_to s s"
  by simp

lemma quiet_andthen: "quiet m \<Longrightarrow> (\<And>x. quiet (f x)) \<Longrightarrow> quiet (andthen m f)"
  unfolding quiet_def
proof
  fix s assume m: "\<forall>s. moved_to s (snd (m s))" and f: "\<And>x. \<forall>s. moved_to s (snd (f x s))"
  obtain q u where run: "m s = (q, u)" by (cases "m s")
  with m have u: "moved_to s u" by (metis snd_conv)
  show "moved_to s (snd (andthen m f s))"
  proof (cases q)
    case (Ret x)
    with moved_to_trans [OF u f [of x, rule_format, of u]] run show ?thesis by (simp add: andthen_def)
  qed (use run u in \<open>simp_all add: andthen_def\<close>)
qed

lemma quiet_plain: "quiet (ret x)" "quiet (raise e)" "quiet (gets f)" "quiet (db_call g (\<lambda>_. []))"
  "quiet (on_pool h)" "quiet (modify (\<lambda>s. s\<lparr>db_conns := k s\<rparr>))"
  by (simp_all add: quiet_def ret_def raise_def gets_def modify_def db_call_def on_pool_def
      split: prod.splits outcome.splits)

lemma quiet_get_conn: "quiet (get_conn M D)"
  unfolding get_conn_def pool_get_sql_def is_valid_def Let_def
  by (auto intro!: quiet_andthen quiet_plain)

lemma quiet_raii: "quiet (raii_get_sql M D)" "quiet (raii_ctor M D)"
  unfolding raii_get_sql_def raii_ctor_def top_conn_def is_valid_def
  by (auto intro!: quiet_andthen quiet_plain quiet_get_conn)

lemma wp_quiet:
  assumes "quiet m" "\<And>r w p cs. Q r (s\<lparr>db_world := w, db_pool := p, db_conns := cs\<rparr>)"
  shows "wp m Q s"
proof -
  have "moved_to s (snd (m s))" using assms(1) by (simp add: quiet_def)
  with assms(2) [where r = "fst (m s)" and w = "db_world (snd (m s))" and p = "db_pool (snd (m s))"
      and cs = "db_conns (snd (m s))"]
  show ?thesis by (simp add: wp_def split_beta)
qed

lemma moved_reorder:
  "s\<lparr>db_pool := p, db_conns := cs, db_world := w, db_log := l\<rparr> =
     s\<lparr>db_world := w, db_pool := p, db_conns := cs, db_log := l\<rparr>"
  by (cases s) simp

lemma wp_db_call:
  "(\<And>r w. Q (of_sum r) (s\<lparr>db_world := w, db_log := db_log s @ ev r\<rparr>)) \<Longrightarrow> wp (db_call f ev) Q s"
  by (simp add: wp_def db_call_def split_beta)

text \<open>A statement: it reaches the database, or getting a connection for it failed.\<close>

lemma wp_statement:
  assumes "quiet g"
    and reached: "\<And>c r w p cs. Q (of_sum r) (moved s w p cs (ev c r))"
    and failed: "\<And>r w p cs. (\<forall>x. r \<noteq> Ret x) \<Longrightarrow> Q r (moved s w p cs [])"
  shows "wp (andthen g (\<lambda>c. db_call (f c) (ev c))) Q s"
  unfolding wp_andthen
proof (rule wp_quiet [OF assms(1)])
  fix r w p cs
  let ?t = "s\<lparr>db_world := w, db_pool := p, db_conns := cs\<rparr>"
  show "case r of Ret x \<Rightarrow> wp (db_call (f x) (ev x)) Q ?t | Throw e \<Rightarrow> Q (Throw e) ?t
     | Undef \<Rightarrow> Q Undef ?t | Hang \<Rightarrow> Q Hang ?t | Terminate \<Rightarrow> Q Terminate ?t"
    using reached failed by (cases r) (auto intro!: wp_db_call simp: moved_reorder)
qed

lemma wp_execute_query [wp_intros]:
  assumes "\<And>c r w p cs. Q (of_sum r) (moved s w p cs [Query c sql (bind_all_param 1 ps) r])"
    and "\<And>r w p cs. (\<forall>x. r \<noteq> Ret x) \<Longrightarrow> Q r (moved s w p cs [])"
  shows "wp (execute_query M D sql ps) Q s"
  unfolding execute_query_def Let_def by (rule wp_statement [OF quiet_raii(1)]) (rule assms(1), use assms(2) in simp)

lemma wp_execute_update [wp_intros]:
  assumes "\<And>c r w p cs. Q (of_sum r) (moved s w p cs [Update c sql (bind_all_param 1 ps) r])"
    and "\<And>r w p cs. (\<forall>x. r \<noteq> Ret x) \<Longrightarrow> Q r (moved s w p cs [])"
  shows "wp (execute_update M D sql ps) Q s"
  unfolding execute_update_def Let_def by (rule wp_statement [OF quiet_raii(1)]) (rule assms(1), use assms(2) in simp)

lemma wp_on_top:
  assumes "\<And>c r w p cs. Q (of_sum r) (moved s w p cs (ev c r))"
  shows "wp (andthen top_conn (\<lambda>c. db_call (f c) (ev c))) Q s"
proof -
  let ?c = "hd (db_conns s)"
  obtain r w where "f ?c (db_world s) = (r, w)" by (cases "f ?c (db_world s)")
  with assms [where r = r and w = w and p = "db_pool s" and cs = "db_conns s" and c = ?c] show ?thesis
    by (simp add: wp_def andthen_def top_conn_def gets_def db_call_def)
qed

lemma wp_transaction [wp_intros]:
  "(\<And>c r w p cs. Q (of_sum r) (moved s w p cs [Autocommit c False r])) \<Longrightarrow> wp (begin_transaction M) Q s"
  "(\<And>c r w p cs. Q (of_sum r) (moved s w p cs [Commit c r])) \<Longrightarrow> wp (commit M) Q s"
  "(\<And>c r w p cs. Q (of_sum r) (moved s w p cs [Rollback c r])) \<Longrightarrow> wp (rollback M) Q s"
  unfolding begin_transaction_def commit_def rollback_def by (rule wp_on_top; assumption)+

text \<open>The destructor adds at most the switch back to auto-commit.\<close>

definition closing :: "event list \<Rightarrow> bool" where
  "closing evs \<longleftrightarrow> evs = [] \<or> (\<exists>c q. evs = [Autocommit c True q])"

definition closes :: "(('w, 'm) dbs_scheme, 'a) prog \<Rightarrow> bool" where
  "closes m \<longleftrightarrow> (\<forall>s. \<exists>w p cs evs. closing evs \<and> snd (m s) = moved s w p cs evs)"

lemma quietD: "quiet m \<Longrightarrow> m s = (r, t) \<Longrightarrow> \<exists>w p cs. t = s\<lparr>db_world := w, db_pool := p, db_conns := cs\<rparr>"
  unfolding quiet_def by (metis snd_conv)

lemma closes_quiet: "quiet m \<Longrightarrow> closes m"
  unfolding closes_def
proof
  fix s assume "quiet m"
  then obtain w p cs where "snd (m s) = s\<lparr>db_world := w, db_pool := p, db_conns := cs\<rparr>"
    using quietD [of m s "fst (m s)" "snd (m s)"] by auto
  then have "closing [] \<and> snd (m s) = moved s w p cs []" by (simp add: closing_def)
  then show "\<exists>w p cs evs. closing evs \<and> snd (m s) = moved s w p cs evs" by blast
qed

lemma closesD: "closes m \<Longrightarrow> m s = (r, t) \<Longrightarrow> \<exists>w p cs evs. closing evs \<and> t = moved s w p cs evs"
  unfolding closes_def by (metis snd_conv)

lemma closes_andthen:
  assumes "closes m" "\<And>x. closes (f x)" "quiet m \<or> (\<forall>x. quiet (f x))"
  shows "closes (andthen m f)"
  unfolding closes_def
proof
  fix s
  obtain q u where run: "m s = (q, u)" by (cases "m s")
  show "\<exists>w p cs evs. closing evs \<and> snd (andthen m f s) = moved s w p cs evs"
  proof (cases q)
    case (Ret x)
    obtain r t where x: "f x u = (r, t)" by (cases "f x u")
    from closesD [OF assms(1) run] obtain w p cs evs where u: "closing evs" "u = moved s w p cs evs" by blast
    from closesD [OF assms(2) x] obtain w' p' cs' evs' where t: "closing evs'" "t = moved u w' p' cs' evs'" by blast
    have "snd (andthen m f s) = t" using run Ret x by (simp add: andthen_def)
    moreover have "evs = [] \<or> evs' = []"
      using assms(3)
    proof
      assume "quiet m"
      with quietD [OF this run] u show ?thesis by (cases s) auto
    next
      assume "\<forall>x. quiet (f x)"
      then have "quiet (f x)" by simp
      from quietD [OF this x] t show ?thesis by (cases u) auto
    qed
    then have "closing (evs @ evs')" using u(1) t(1) by auto
    moreover have "t = moved s w' p' cs' (evs @ evs')" using u t by simp
    ultimately show ?thesis by metis
  next
    case (Throw e)
    with closesD [OF assms(1) run] run show ?thesis by (simp add: andthen_def)
  qed (use closesD [OF assms(1) run] run in \<open>simp_all add: andthen_def\<close>)
qed

lemma closes_set: "closes (db_call g (\<lambda>r. [Autocommit c True r]))"
  unfolding closes_def
proof
  fix s
  obtain r w where "g (db_world s) = (r, w)" by (cases "g (db_world s)")
  then have "closing [Autocommit c True r] \<and> snd (db_call g (\<lambda>r. [Autocommit c True r]) s) =
      moved s w (db_pool s) (db_conns s) [Autocommit c True r]"
    by (simp add: closing_def db_call_def)
  then show "\<exists>w p cs evs. closing evs \<and> snd (db_call g (\<lambda>r. [Autocommit c True r]) s) = moved s w p cs evs"
    by blast
qed

lemma quiet_free_conn: "quiet (free_conn c)"
  unfolding free_conn_def by (auto intro!: quiet_andthen quiet_plain split: option.split)

lemma closes_left: "quiet m \<Longrightarrow> (\<And>x. closes (f x)) \<Longrightarrow> closes (andthen m f)"
  by (rule closes_andthen) (auto intro: closes_quiet)

lemma closes_right: "closes m \<Longrightarrow> (\<And>x. quiet (f x)) \<Longrightarrow> closes (andthen m f)"
  by (rule closes_andthen) (auto intro: closes_quiet)

lemma closes_if: "closes m \<Longrightarrow> closes n \<Longrightarrow> closes (if b then m else n)"
  by simp

lemma closes_dtor: "closes (raii_dtor M)"
  unfolding raii_dtor_def top_conn_def is_valid_def
proof (intro closes_left [of "gets _"] closes_left [of "db_call _ (\<lambda>_. [])"] quiet_plain)
  fix c ok
  show "closes (andthen (if ok then andthen (db_call (my_get_autocommit M c) (\<lambda>_. [])) (\<lambda>auto.
      andthen (if \<not> auto then db_call (my_set_autocommit M c True) (\<lambda>r. [Autocommit c True r]) else ret ())
        (\<lambda>_. free_conn (Some c))) else ret ()) (\<lambda>_. modify (\<lambda>s. s\<lparr>db_conns := tl (db_conns s)\<rparr>)))"
    by (intro closes_right closes_if closes_left [of "db_call _ (\<lambda>_. [])"] closes_set
        quiet_plain quiet_free_conn closes_quiet)
qed

lemma wp_raii_dtor:
  assumes "\<And>r w p cs evs. closing evs \<Longrightarrow> Q r (moved s w p cs evs)"
  shows "wp (raii_dtor M) Q s"
proof -
  obtain r t where run: "raii_dtor M s = (r, t)" by (cases "raii_dtor M s")
  with closesD [OF closes_dtor run] assms show ?thesis by (auto simp: wp_def)
qed

text \<open>A scope: the body starts after the constructor; the destructor may close a transaction.\<close>

lemma wp_with_conn [wp_intros]:
  assumes body: "\<And>w p cs. wp body
      (\<lambda>r t. \<forall>r' w p cs evs. closing evs \<longrightarrow> r' = r \<or> \<not> ends r' \<longrightarrow> Q r' (moved t w p cs evs))
      (s\<lparr>db_world := w, db_pool := p, db_conns := cs\<rparr>)"
    and failed: "\<And>r w p cs. (\<forall>x. r \<noteq> Ret x) \<Longrightarrow> Q r (moved s w p cs [])"
  shows "wp (with_conn M D body) Q s"
  unfolding with_conn_def wp_andthen
proof (rule wp_quiet [OF quiet_raii(2)])
  fix r :: "unit outcome" and w p cs
  let ?t = "s\<lparr>db_world := w, db_pool := p, db_conns := cs\<rparr>"
  have nil: "Q q t" if "\<forall>w p cs evs. closing evs \<longrightarrow> Q q (moved t w p cs evs)" for q t
    using that [rule_format, where evs = "[]" and w = "db_world t" and p = "db_pool t" and cs = "db_conns t"]
    by (simp add: closing_def)
  have "wp (with_dtor body (raii_dtor M)) Q ?t"
    unfolding wp_with_dtor
  proof (rule wp_mono [OF body [where w = w and p = p and cs = cs]])
    fix r t
    assume b: "\<forall>r' w p cs evs. closing evs \<longrightarrow> r' = r \<or> \<not> ends r' \<longrightarrow> Q r' (moved t w p cs evs)"
    have d: "wp (raii_dtor M) (\<lambda>q u. case q of Ret _ \<Rightarrow> Q r u | Throw _ \<Rightarrow> Q Terminate u
        | Undef \<Rightarrow> Q Undef u | Hang \<Rightarrow> Q Hang u | Terminate \<Rightarrow> Q Terminate u) t"
      using b by (intro wp_raii_dtor) (auto split: outcome.splits)
    show "case r of Undef \<Rightarrow> Q Undef t | Hang \<Rightarrow> Q Hang t | Terminate \<Rightarrow> Q Terminate t
       | _ \<Rightarrow> wp (raii_dtor M) (\<lambda>q u. case q of Ret _ \<Rightarrow> Q r u | Throw _ \<Rightarrow> Q Terminate u
              | Undef \<Rightarrow> Q Undef u | Hang \<Rightarrow> Q Hang u | Terminate \<Rightarrow> Q Terminate u) t"
    proof (cases r)
      case Undef
      have "Q Undef t" by (rule nil) (use b Undef in simp)
      with Undef show ?thesis by simp
    next
      case Hang
      have "Q Hang t" by (rule nil) (use b Hang in simp)
      with Hang show ?thesis by simp
    next
      case Terminate
      have "Q Terminate t" by (rule nil) (use b Terminate in simp)
      with Terminate show ?thesis by simp
    next
      case (Ret x)
      with d show ?thesis by simp
    next
      case (Throw e)
      with d show ?thesis by simp
    qed
  qed
  then show "case r of Ret x \<Rightarrow> wp (with_dtor body (raii_dtor M)) Q ?t | Throw e \<Rightarrow> Q (Throw e) ?t
     | Undef \<Rightarrow> Q Undef ?t | Hang \<Rightarrow> Q Hang ?t | Terminate \<Rightarrow> Q Terminate ?t"
    using failed [where w = w and p = p and cs = cs] by (cases r) auto
qed

section \<open>Properties\<close>

text \<open>
  C19: however the scoped connections interleave, a permit always stands for a connection in
  the queue, so the branch of \<open>getSql\<close> that reports a synchronization error is never taken;
  free permits, permits taken (two by a scope that replaces its connection) and leaked permits
  add up to the configured size.
\<close>

theorem sql_pool_in_sync:
  assumes "sql_reach cap k s"
  shows "OutOfSync \<notin> set (sh_clients s) \<and> (\<exists>n. sp_smph (sh_pool s) = Some n \<and>
     n \<le> length (sp_queue (sh_pool s)) \<and>
     n + sum_list (map sem_permit (sh_clients s)) + sh_leaked s = cap)"
  using sql_reach_inv [OF assms] by (auto simp: sql_inv_def)

text \<open>One client of a pool of one that has got its connection.\<close>

definition one_client :: shared where
  "one_client = \<lparr>sh_pool = \<lparr>sp_smph = Some 1, sp_max_conn = 2, sp_queue = [1]\<rparr>,
     sh_clients = [Holding 0, Idle], sh_next = 2, sh_leaked = 0\<rparr>"

lemma one_client_reach: "sql_reach 2 2 one_client"
  using sql_reach.step [OF sql_reach.step [OF sql_reach.start [of 2 2]
      sql_step.acquire [of 0 _ "\<lparr>sp_smph = Some 1, sp_max_conn = 2, sp_queue = [0, 1]\<rparr>"]]
      sql_step.pop [of 0 _ 0 "\<lparr>sp_smph = Some 1, sp_max_conn = 2, sp_queue = [1]\<rparr>"]]
  by (simp add: shared_init_def sem_acquire_def pop_conn_def one_client_def upt_rec numeral_2_eq_2)

lemma sql_pool_in_sync_witness:
  "OutOfSync \<notin> set (sh_clients one_client) \<and> sql_reach 2 2 one_client"
  using sql_pool_in_sync [OF one_client_reach] one_client_reach by simp

text \<open>
  C17: no connection has two owners: one that a scope uses is used by no other scope and is
  not in the queue, however the scopes interleave and reconnect.
\<close>

theorem sql_connection_exclusive:
  assumes "sql_reach cap k s" "i < length (sh_clients s)" "owned (sh_clients s ! i) = Some c"
  shows "c \<notin> set (sp_queue (sh_pool s)) \<and> \<not> (\<exists>j < length (sh_clients s). j \<noteq> i \<and> owned (sh_clients s ! j) = Some c)"
proof -
  let ?cl = "sh_clients s"
  have "count_list (sp_queue (sh_pool s)) c + sum_list (map (conn_holds c) ?cl) \<le> (if c < sh_next s then 1 else 0)"
    using sql_reach_inv [OF assms(1)] by (simp only: sql_inv_def) blast
  also have "\<dots> \<le> 1" by simp
  finally have "count_list (sp_queue (sh_pool s)) c + sum_list (map (conn_holds c) ?cl) \<le> 1" .
  with sum_list_map_update [OF assms(2), of "conn_holds c" Idle] assms(3)
  have q: "count_list (sp_queue (sh_pool s)) c = 0" and z: "sum_list (map (conn_holds c) (?cl[i := Idle])) = 0"
    by (simp_all add: conn_holds_def del: sum_list_eq_0_iff)
  have "owned (?cl ! j) \<noteq> Some c" if "j < length ?cl" "j \<noteq> i" for j
    using sum_list_map_update [of j "?cl[i := Idle]" "conn_holds c" Idle] that z
    by (auto simp: conn_holds_def simp del: sum_list_eq_0_iff)
  with q show ?thesis by (auto simp: count_list_0_iff)
qed

lemma sql_connection_exclusive_witness:
  "0 \<notin> set (sp_queue (sh_pool one_client)) \<and> sh_clients one_client ! 1 = Idle"
  using sql_connection_exclusive [OF one_client_reach, of 0 0] by (simp add: one_client_def)

text \<open>
  A connection that is dead when its scope ends is dropped with its permit: when it
  held the last permit, the next \<open>getConn\<close> blocks for ever.
\<close>

theorem dead_connection_leaks_permit:
  assumes "db_conns s = c # cs" "\<not> fst (my_valid M c (db_world s))"
  shows "\<exists>t. raii_dtor M s = (Ret (), t) \<and> db_pool t = db_pool s \<and>
    (sp_smph (db_pool s) = Some 0 \<longrightarrow> fst (get_conn M D t) = Hang)"
proof -
  obtain w where "my_valid M c (db_world s) = (False, w)"
    using assms(2) by (cases "my_valid M c (db_world s)") auto
  then have "raii_dtor M s = (Ret (), s\<lparr>db_world := w, db_conns := cs\<rparr>)"
    using assms(1) by (simp add: raii_dtor_def top_conn_def andthen_def gets_def is_valid_def db_call_def
        ret_def modify_def)
  then show ?thesis
    by (simp add: get_conn_def andthen_def on_pool_def sem_acquire_def)
qed

text \<open>Two databases for witnesses: one that answers, and one whose connections are all dead.\<close>

definition live_mysql :: "(string \<Rightarrow> row list) \<Rightarrow> (string \<Rightarrow> int) \<Rightarrow> unit mysql" where
  "live_mysql answer affected = \<lparr>my_driver = (\<lambda>w. True), my_connect = (\<lambda>a w. (Inr 9, w)),
     my_close = (\<lambda>c w. (Inr (), w)), my_valid = (\<lambda>c w. (True, w)),
     my_get_autocommit = (\<lambda>c w. (Inr True, w)), my_set_autocommit = (\<lambda>c b w. (Inr (), w)),
     my_commit = (\<lambda>c w. (Inr (), w)), my_rollback = (\<lambda>c w. (Inr (), w)),
     my_query = (\<lambda>c q b w. (Inr (answer q), w)), my_update = (\<lambda>c q b w. (Inr (affected q), w))\<rparr>"

lemma live_healthy: "healthy (live_mysql answer affected)"
  by (auto simp: healthy_def live_mysql_def)

definition dead_mysql :: "unit mysql" where
  "dead_mysql = \<lparr>my_driver = (\<lambda>w. True), my_connect = (\<lambda>a w. (Inl (SQLException ''down''), w)),
     my_close = (\<lambda>c w. (Inr (), w)), my_valid = (\<lambda>c w. (False, w)),
     my_get_autocommit = (\<lambda>c w. (Inl (SQLException ''down''), w)),
     my_set_autocommit = (\<lambda>c b w. (Inl (SQLException ''down''), w)),
     my_commit = (\<lambda>c w. (Inl (SQLException ''down''), w)),
     my_rollback = (\<lambda>c w. (Inl (SQLException ''down''), w)),
     my_query = (\<lambda>c q b w. (Inl (SQLException ''down''), w)),
     my_update = (\<lambda>c q b w. (Inl (SQLException ''down''), w))\<rparr>"

definition last_permit_taken :: "unit dbs" where
  "last_permit_taken = \<lparr>db_world = (), db_pool = \<lparr>sp_smph = Some 0, sp_max_conn = 1, sp_queue = []\<rparr>,
     db_conns = [0], db_log = []\<rparr>"

lemma dead_connection_leaks_permit_witness:
  "fst (get_conn dead_mysql D (snd (raii_dtor dead_mysql last_permit_taken))) = Hang \<and>
     fst (raii_dtor dead_mysql last_permit_taken) = Ret ()"
  using dead_connection_leaks_permit [of last_permit_taken 0 "[]" dead_mysql D]
  by (auto simp: last_permit_taken_def dead_mysql_def)

text \<open>
  A connection that \<open>getSql\<close> makes anew is opened without the schema of the configuration,
  which \<open>init\<close> selects for the first ones.
\<close>

lemma reconnect_without_schema:
  assumes "sp_queue (db_pool s) = c # cs" "my_valid M c (db_world s) = (False, w)" "my_driver M w"
    "my_connect M (Plain (db_server D) (db_user D) (db_passwd D)) w = (Inr c', w')"
  shows "fst (pool_get_sql M D s) = Ret c'"
  using assms by (simp add: pool_get_sql_def andthen_def on_pool_def pop_conn_def is_valid_def db_call_def
      gets_def Let_def)

end
