(* ===== verification/Interfaces.thy ===== *)
theory Interfaces
  imports Prelude
begin

text \<open>
  The interfaces the components offer each other, as locales: what the client calls
  (\<open>fixes\<close>), what the provider promises (\<open>assumes\<close>) and what follows for the client.
  Each is interpreted on the model's definitions in the theory of the component that
  provides it:
  \<^item> \<open>id_supply\<close> (Snowflake): a generator whose results grow with a key of its state;
  \<^item> \<open>codec\<close> and \<open>codec_chain\<close> (CppStd, Json): a decoder that inverts an encoder, and two
    in a row;
  \<^item> \<open>write_queue\<close> (WsSession, LegacySession, HttpSession): a queue in front of a stream that
    allows one write at a time.
\<close>

section \<open>Id supplies\<close>

locale id_supply =
  fixes gen :: "('s, u64) prog"
    and good :: "'s \<Rightarrow> bool"
    and key :: "'s \<Rightarrow> nat"
  assumes gen_good: "good s \<Longrightarrow> gen s = (Ret x, s') \<Longrightarrow> good s'"
    and gen_key: "good s \<Longrightarrow> gen s = (Ret x, s') \<Longrightarrow> key s < key s'"
    and gen_value: "good s \<Longrightarrow> gen s = (Ret x, s') \<Longrightarrow> unat x = key s'"
begin

lemma run_good:
  "good s \<Longrightarrow> repeat_prog k gen s = (Ret xs, s') \<Longrightarrow> good s' \<and> key s \<le> key s' \<and> length xs = k"
proof (induction k arbitrary: s xs)
  case 0
  then show ?case by (simp add: ret_eq)
next
  case (Suc k)
  from Suc.prems(2) obtain x ys t where
    "gen s = (Ret x, t)" "repeat_prog k gen t = (Ret ys, s')" "xs = x # ys"
    by (auto simp: repeat_prog_Suc_eq simp del: repeat_prog.simps)
  with Suc.IH [of t ys] Suc.prems(1) gen_good gen_key show ?case
    by (metis length_Cons less_imp_le_nat order_trans)
qed

lemma run_above: 
  "good s \<Longrightarrow> repeat_prog k gen s = (Ret xs, s') \<Longrightarrow> x \<in> set xs \<Longrightarrow> key s < unat x \<and> unat x \<le> key s'"
proof (induction k arbitrary: s xs)
  case 0
  then show ?case by (simp add: ret_eq)
next
  case (Suc k)
  from Suc.prems(2) obtain y ys t where step:
    "gen s = (Ret y, t)" "repeat_prog k gen t = (Ret ys, s')" "xs = y # ys"
    by (auto simp: repeat_prog_Suc_eq simp del: repeat_prog.simps)
  note t = gen_good [OF Suc.prems(1) step(1)] gen_key [OF Suc.prems(1) step(1)]
    gen_value [OF Suc.prems(1) step(1)]
  have "key t \<le> key s'" using run_good [OF t(1) step(2)] by simp
  with Suc.IH [OF t(1) step(2)] Suc.prems(3) t step(3) show ?case by auto
qed

lemma run_increasing:
  "good s \<Longrightarrow> repeat_prog k gen s = (Ret xs, s') \<Longrightarrow> sorted_wrt (<) xs"
proof (induction k arbitrary: s xs)
  case 0
  then show ?case by (simp add: ret_eq)
next
  case (Suc k)
  from Suc.prems(2) obtain y ys t where step:
    "gen s = (Ret y, t)" "repeat_prog k gen t = (Ret ys, s')" "xs = y # ys"
    by (auto simp: repeat_prog_Suc_eq simp del: repeat_prog.simps)
  note t = gen_good [OF Suc.prems(1) step(1)] gen_value [OF Suc.prems(1) step(1)]
  have "y < z" if "z \<in> set ys" for z
    using run_above [OF t(1) step(2) that] t(2) by (simp add: word_less_nat_alt)
  with Suc.IH [OF t(1) step(2)] step(3) show ?case by simp
qed

lemma run_distinct:
  "good s \<Longrightarrow> repeat_prog k gen s = (Ret xs, s') \<Longrightarrow> distinct xs"
  using run_increasing sorted_wrt_less_distinct by blast

end

section \<open>Codecs\<close>

locale codec =
  fixes enc :: "'a \<Rightarrow> 'b"
    and dec :: "'b \<Rightarrow> 'a outcome"
  assumes dec_enc [simp]: "dec (enc x) = Ret x"
begin

lemma enc_eq_iff: "enc x = enc y \<longleftrightarrow> x = y"
  by (metis dec_enc outcome.inject(1))

lemma inj_enc: "inj enc"
  by (simp add: inj_def enc_eq_iff)

end

text \<open>Two codecs in a row are a codec.\<close>

locale codec_chain = inner: codec enc1 dec1 + outer: codec enc2 dec2
  for enc1 :: "'a \<Rightarrow> 'b" and dec1 :: "'b \<Rightarrow> 'a outcome"
    and enc2 :: "'b \<Rightarrow> 'c" and dec2 :: "'c \<Rightarrow> 'b outcome"
begin

lemma chain_dec_enc: "obind (dec2 (enc2 (enc1 x))) dec1 = Ret x"
  by simp

end

sublocale codec_chain \<subseteq> chain: codec "\<lambda>x. enc2 (enc1 x)" "\<lambda>z. obind (dec2 z) dec1"
  by unfold_locales simp

section \<open>Write queues\<close>

text \<open>
  A Beast stream allows one \<open>async_write\<close> at a time. The sessions keep what they have to
  write in a queue whose front is being written: \<open>on_send\<close> and \<open>on_written\<close> give the next
  state and the writes they start.
\<close>

datatype 'm write_op = Send 'm | Written

text \<open>
  One event, with what was handed over, which writes were started and how many ended so far.
  A write can only end when one is outstanding.
\<close>

definition wq_step :: "('m \<Rightarrow> 's \<Rightarrow> 's \<times> 'm list) \<Rightarrow> ('s \<Rightarrow> 's \<times> 'm list) \<Rightarrow> 'm write_op \<Rightarrow> 's \<times> 'm list \<times> 'm list \<times> nat \<Rightarrow> 's \<times> 'm list \<times> 'm list \<times> nat" where
  "wq_step on_send on_written ev = (\<lambda>(s, sent, started, ended).
     case ev of
       Send m \<Rightarrow> (fst (on_send m s), sent @ [m], started @ snd (on_send m s), ended)
     | Written \<Rightarrow>
         if ended = length started then (s, sent, started, ended)
         else (fst (on_written s), sent, started @ snd (on_written s), Suc ended))"

locale write_queue =
  fixes queue :: "'s \<Rightarrow> 'm list"
    and on_send :: "'m \<Rightarrow> 's \<Rightarrow> 's \<times> 'm list"
    and on_written :: "'s \<Rightarrow> 's \<times> 'm list"
  assumes send_queue: "queue (fst (on_send m s)) = queue s @ [m]"
    and send_start: "snd (on_send m s) = (if queue s = [] then [m] else [])"
    and written_queue: "queue s = m # q \<Longrightarrow> queue (fst (on_written s)) = q"
    and written_start: "queue s = m # q \<Longrightarrow> snd (on_written s) = take 1 q"
begin

definition wq_inv :: "'s \<times> 'm list \<times> 'm list \<times> nat \<Rightarrow> bool" where
  "wq_inv = (\<lambda>(s, sent, started, ended).
     queue s = drop ended sent \<and> ended \<le> length sent \<and>
     started = take (if queue s = [] then ended else Suc ended) sent)"

lemma wq_step_inv: "wq_inv x \<Longrightarrow> wq_inv (wq_step on_send on_written ev x)"
proof -
  assume inv: "wq_inv x"
  obtain s sent started ended where x: "x = (s, sent, started, ended)" by (cases x)
  show ?thesis
  proof (cases ev)
    case (Send m)
    with inv x show ?thesis
      by (auto simp: wq_inv_def wq_step_def send_queue send_start)
  next
    case Written
    show ?thesis
    proof (cases "queue s")
      case Nil
      with inv x Written show ?thesis by (auto simp: wq_inv_def wq_step_def)
    next
      case (Cons m q)
      with inv x have d: "drop ended sent = m # q" and st: "started = take (Suc ended) sent"
        by (auto simp: wq_inv_def)
      then have l: "ended < length sent" by (metis drop_eq_Nil list.distinct(1) not_le)
      then have q: "q = drop (Suc ended) sent" using d by (metis Cons_nth_drop_Suc list.inject)
      have "take (Suc ended) sent @ take 1 q = take (if q = [] then Suc ended else Suc (Suc ended)) sent"
        using q by (cases "Suc ended < length sent")
          (auto simp: take_Suc_conv_app_nth [of "Suc ended"] take_Suc hd_drop_conv_nth)
      then show ?thesis using Written x st l q
        by (auto simp: wq_inv_def wq_step_def written_queue [OF Cons] written_start [OF Cons])
    qed
  qed
qed

text \<open>
  From an idle session: writes start in the order of the messages, each at most once, at most
  one is outstanding, and when none is, everything has been written.
\<close>

lemma write_queue_run:
  assumes "queue s = []" "fold (wq_step on_send on_written) evs (s, [], [], 0) = (t, sent, started, ended)"
  shows "started = take (length started) sent" "length started \<le> Suc ended" "ended \<le> length started"
    "length started = ended \<Longrightarrow> started = sent" "queue t = drop ended sent"
proof -
  have "wq_inv (fold (wq_step on_send on_written) evs x)" if "wq_inv x" for x
    using that by (induction evs arbitrary: x) (simp_all only: fold_simps wq_step_inv)
  moreover have "wq_inv (s, [], [], 0)" using assms(1) by (simp add: wq_inv_def)
  ultimately have "wq_inv (t, sent, started, ended)" using assms(2) by metis
  then have q: "queue t = drop ended sent" and e: "ended \<le> length sent"
    and st: "started = take (if queue t = [] then ended else Suc ended) sent" by (auto simp: wq_inv_def)
  show "started = take (length started) sent" using st by (auto simp: min_def)
  show "length started \<le> Suc ended" using st by auto
  show "ended \<le> length started" using st e by (auto simp: min_def)
  show "started = sent" if "length started = ended"
    using st q e that by (auto split: if_splits)
  show "queue t = drop ended sent" by (rule q)
qed

end

end
