(* ===== verification/CppStd.thy ===== *)
theory CppStd
  imports Interfaces
begin

text \<open>
  The parts of the C++ standard library and of Beast's string helpers that the handlers call
  on bytes: \<open>std::to_string\<close> and \<open>std::stoull\<close> on \<open>u64\<close>, the \<open>find\<close> family of
  \<open>std::string_view\<close>, \<open>boost::beast::iequals\<close>, the two-digit hexadecimal output of a
  stream, and \<open>std::filesystem::path::operator/\<close> on POSIX. Strings are lists of bytes
  (\<open>char list\<close>). \<open>bytes_to_hex\<close> is the helper of \<open>core/request_handler.cpp\<close> itself.
\<close>

section \<open>Decimal numbers\<close>

definition is_digit :: "char \<Rightarrow> bool" where
  "is_digit c \<longleftrightarrow> 48 \<le> (of_char c :: nat) \<and> (of_char c :: nat) \<le> 57"

definition digit_char :: "nat \<Rightarrow> char" where
  "digit_char d = char_of (48 + d)"

definition digit_val :: "char \<Rightarrow> nat" where
  "digit_val c = of_char c - 48"

definition is_space :: "char \<Rightarrow> bool" where
  "is_space c \<longleftrightarrow> of_char c \<in> {9, 10, 11, 12, 13, 32 :: nat}"

fun dec_digits :: "nat \<Rightarrow> string" where
  "dec_digits n = (if n < 10 then [digit_char n] else dec_digits (n div 10) @ [digit_char (n mod 10)])"

declare dec_digits.simps [simp del]

definition digits_val :: "string \<Rightarrow> nat" where
  "digits_val ds = foldl (\<lambda>v c. 10 * v + digit_val c) 0 ds"

definition to_string :: "u64 \<Rightarrow> string" where
  "to_string w = dec_digits (unat w)"

text \<open>
  \<open>std::stoull(s)\<close> in base 10: leading white space, an optional sign, then the longest
  run of digits; what follows the digits is ignored. No digit is \<open>std::invalid_argument\<close>, a value
  that does not fit is \<open>std::out_of_range\<close>, and a minus sign negates modulo \<open>2^64\<close>.
\<close>

definition split_sign :: "string \<Rightarrow> bool \<times> string" where
  "split_sign s = (case s of
       [] \<Rightarrow> (False, [])
     | c # cs \<Rightarrow> if c = CHR ''-'' then (True, cs) else if c = CHR ''+'' then (False, cs) else (False, s))"

definition stoull :: "string \<Rightarrow> u64 outcome" where
  "stoull s =
     (let (neg, u) = split_sign (dropWhile is_space s);
          ds = takeWhile is_digit u
      in if ds = [] then Throw (InvalidArgument ''stoull'')
         else if digits_val ds \<ge> 2 ^ 64 then Throw (OutOfRange ''stoull'')
         else Ret (if neg then - of_nat (digits_val ds) else of_nat (digits_val ds)))"

lemma digit_char_digit: "d < 10 \<Longrightarrow> is_digit (digit_char d) \<and> digit_val (digit_char d) = d"
  by (simp add: is_digit_def digit_char_def digit_val_def of_char_of take_bit_nat_eq_self)

lemma dec_digits_digits: "set (dec_digits n) \<subseteq> Collect is_digit"
proof (induction n rule: dec_digits.induct)
  case (1 n)
  then show ?case
    by (subst dec_digits.simps) (auto simp: digit_char_digit)
qed

lemma dec_digits_not_Nil [simp]: "dec_digits n \<noteq> []"
  by (subst dec_digits.simps) simp

lemma digits_val_snoc [simp]: "digits_val (ds @ [c]) = 10 * digits_val ds + digit_val c"
  by (simp add: digits_val_def)

lemma digits_val_dec_digits [simp]: "digits_val (dec_digits n) = n"
proof (induction n rule: dec_digits.induct)
  case (1 n)
  show ?case
  proof (cases "n < 10")
    case True
    then show ?thesis
      by (subst dec_digits.simps) (simp add: digits_val_def digit_char_digit)
  next
    case False
    with 1 have "digits_val (dec_digits (n div 10)) = n div 10" by simp
    with False show ?thesis
      by (subst dec_digits.simps) (simp add: digit_char_digit)
  qed
qed

lemma digit_not_space_sign: "is_digit c \<Longrightarrow> \<not> is_space c \<and> c \<noteq> CHR ''-'' \<and> c \<noteq> CHR ''+''"
  by (auto simp: is_digit_def is_space_def)

lemma stoull_to_string_append:
  assumes "rest = [] \<or> \<not> is_digit (hd rest)"
  shows "stoull (to_string w @ rest) = Ret w"
proof -
  let ?ds = "dec_digits (unat w)"
  obtain c cs where ds: "?ds = c # cs" by (meson dec_digits_not_Nil list.exhaust)
  then have c: "is_digit c" using dec_digits_digits [of "unat w"] by auto
  note nc = digit_not_space_sign [OF c]
  have "dropWhile is_space (?ds @ rest) = ?ds @ rest" using ds nc by simp
  moreover have "split_sign (?ds @ rest) = (False, ?ds @ rest)"
    using ds nc by (simp add: split_sign_def)
  moreover have "takeWhile is_digit (?ds @ rest) = ?ds"
    using dec_digits_digits [of "unat w"] assms by (intro takeWhile_append_stop) auto
  moreover have "unat w < 2 ^ 64" using unsigned_less [of w] by simp
  ultimately show ?thesis by (simp add: stoull_def to_string_def)
qed

lemma stoull_to_string [simp]: "stoull (to_string w) = Ret w"
  using stoull_to_string_append [of "[]" w] by simp

interpretation u64_text: codec to_string stoull
  by unfold_locales simp

lemma stoull_outcomes: "stoull s \<noteq> Undef \<and> stoull s \<noteq> Hang \<and> stoull s \<noteq> Terminate"
  by (simp add: stoull_def Let_def split: prod.splits)

section \<open>Searching and comparing\<close>

text \<open>\<open>sv.find(c, pos)\<close> and \<open>sv.rfind(c)\<close>; \<open>None\<close> is \<open>npos\<close>.\<close>

definition find_from :: "char \<Rightarrow> string \<Rightarrow> nat \<Rightarrow> nat option" where
  "find_from c s pos =
     (let i = pos + length (takeWhile (\<lambda>x. x \<noteq> c) (drop pos s)) in if i < length s then Some i else None)"

definition rfind :: "char \<Rightarrow> string \<Rightarrow> nat option" where
  "rfind c s =
     (let n = length (takeWhile (\<lambda>x. x \<noteq> c) (rev s)) in if n < length s then Some (length s - Suc n) else None)"

fun starts_with :: "string \<Rightarrow> string \<Rightarrow> bool" where
  "starts_with s [] = True"
| "starts_with [] (c # cs) = False"
| "starts_with (x # xs) (c # cs) = (x = c \<and> starts_with xs cs)"

text \<open>\<open>sv.find(t) != npos\<close>\<close>

fun contains_sub :: "string \<Rightarrow> string \<Rightarrow> bool" where
  "contains_sub [] t = (t = [])"
| "contains_sub (x # xs) t = (starts_with (x # xs) t \<or> contains_sub xs t)"

definition ascii_tolower :: "char \<Rightarrow> char" where
  "ascii_tolower c = (let n = (of_char c :: nat) in if 65 \<le> n \<and> n \<le> 90 then char_of (n + 32) else c)"

definition iequals :: "string \<Rightarrow> string \<Rightarrow> bool" where
  "iequals a b \<longleftrightarrow> map ascii_tolower a = map ascii_tolower b"

lemma starts_with_iff: "starts_with s t \<longleftrightarrow> (\<exists>r. s = t @ r)"
  by (induction s t rule: starts_with.induct) auto

lemma contains_sub_iff: "contains_sub s t \<longleftrightarrow> (\<exists>a b. s = a @ t @ b)"
proof (induction s)
  case Nil
  then show ?case by auto
next
  case (Cons x xs)
  have "(\<exists>a b. x # xs = a @ t @ b) \<longleftrightarrow> (\<exists>b. x # xs = t @ b) \<or> (\<exists>a b. xs = a @ t @ b)"
    by (metis append_Cons append_Nil list.exhaust list.inject)
  then show ?case using Cons by (simp add: starts_with_iff)
qed

lemma find_from_alt:
  assumes "pos \<le> length s"
  shows "find_from c s pos =
    (if c \<in> set (drop pos s) then Some (pos + length (takeWhile (\<lambda>x. x \<noteq> c) (drop pos s))) else None)"
proof -
  have "pos + length (takeWhile (\<lambda>x. x \<noteq> c) (drop pos s)) < length s \<longleftrightarrow> c \<in> set (drop pos s)"
    using length_takeWhile_less_iff [of "\<lambda>x. x \<noteq> c" "drop pos s"] assms by auto
  then show ?thesis by (simp add: find_from_def Let_def)
qed

section \<open>Hexadecimal output\<close>

definition hex_char :: "nat \<Rightarrow> char" where
  "hex_char d = (if d < 10 then char_of (48 + d) else char_of (87 + d))"

text \<open>\<open>ss << std::hex << std::setfill('0') << std::setw(2) << (unsigned) b\<close>\<close>

definition hex_byte :: "u8 \<Rightarrow> string" where
  "hex_byte b = [hex_char (unat b div 16), hex_char (unat b mod 16)]"

definition bytes_to_hex :: "u8 list \<Rightarrow> string" where
  "bytes_to_hex bs = concat (map hex_byte bs)"

lemma hex_char_inj: "a < 16 \<Longrightarrow> b < 16 \<Longrightarrow> hex_char a = hex_char b \<longleftrightarrow> a = b"
proof -
  assume ab: "a < 16" "b < 16"
  have v: "(of_char (hex_char d) :: nat) = (if d < 10 then 48 + d else 87 + d)" if "d < 16" for d
    using that by (simp add: hex_char_def of_char_of take_bit_nat_eq_self)
  show ?thesis
  proof
    assume "hex_char a = hex_char b"
    then have "(of_char (hex_char a) :: nat) = of_char (hex_char b)" by simp
    then show "a = b" using ab by (simp add: v split: if_splits)
  qed simp
qed

lemma hex_byte_inj: "hex_byte a = hex_byte b \<longleftrightarrow> a = b"
proof
  assume "hex_byte a = hex_byte b"
  moreover have "unat a < 256" "unat b < 256" using unsigned_less [of a] unsigned_less [of b] by simp_all
  ultimately have "unat a div 16 = unat b div 16" "unat a mod 16 = unat b mod 16"
    by (simp_all add: hex_byte_def hex_char_inj)
  then have "unat a = unat b" by (metis div_mult_mod_eq)
  then show "a = b" by (simp add: word_unat_eq_iff)
qed simp

lemma bytes_to_hex_Cons: "bytes_to_hex (b # bs) = hex_byte b @ bytes_to_hex bs"
  by (simp add: bytes_to_hex_def)

lemma bytes_to_hex_inj: "bytes_to_hex bs = bytes_to_hex cs \<longleftrightarrow> bs = cs"
proof (induction bs arbitrary: cs)
  case Nil
  then show ?case by (cases cs) (simp_all add: bytes_to_hex_def hex_byte_def)
next
  case (Cons b bs)
  show ?case
  proof (cases cs)
    case Nil
    then show ?thesis by (simp add: bytes_to_hex_def hex_byte_def)
  next
    case (Cons c cs')
    have "length (hex_byte b) = length (hex_byte c)" by (simp add: hex_byte_def)
    then show ?thesis by (simp add: Cons bytes_to_hex_Cons hex_byte_inj Cons.IH)
  qed
qed

lemma length_bytes_to_hex: "length (bytes_to_hex bs) = 2 * length bs"
  by (induction bs) (simp_all add: bytes_to_hex_def hex_byte_def)

section \<open>Paths\<close>

text \<open>
  \<open>lhs / rhs\<close> of \<open>std::filesystem::path\<close> on POSIX: an absolute right side replaces the
  left one; otherwise a separator is added when the left side ends in a file name.
\<close>

definition path_append :: "string \<Rightarrow> string \<Rightarrow> string" where
  "path_append lhs rhs =
     (if starts_with rhs ''/'' then rhs
      else if lhs \<noteq> [] \<and> last lhs \<noteq> CHR ''/'' then lhs @ ''/'' @ rhs
      else lhs @ rhs)"

end
