(* ===== verification/Snowflake.thy ===== *)
theory Snowflake
  imports CppStd
begin

text \<open>
  The id generator, \<open>src/src/utils/snowflake.hpp\<close> and \<open>snowflake.cpp\<close>.

  The class's static members are the record \<open>snowflake\<close>; the system clock is a parameter,
  \<open>clk n\<close> being the value of the n-th call of \<open>time_gen\<close> in milliseconds, and
  \<open>sf_ticks\<close> counts the calls made so far (the position of the clock, not a member of the
  class). \<open>next_id\<close> runs under the class's mutex, so concurrent callers are sequential
  calls of it in some order. The lemmas give the layout of an id, the invariant of the
  generator, that ids strictly increase under a clock that never steps back, and when the
  spin loop of \<open>wait_till_next_ms\<close> returns.
\<close>

unbundle bit_operations_syntax

section \<open>State and constants\<close>

record snowflake =
  sf_service_id :: u64
  sf_sequence_id :: u64
  sf_last_timestamp :: i64
  sf_custom_epoch :: u64
  sf_ticks :: nat

abbreviation (input) INIT_SERVICE_BITS :: u64 where "INIT_SERVICE_BITS \<equiv> 1024"
abbreviation (input) SERVICE_BITS :: nat where "SERVICE_BITS \<equiv> 10"
abbreviation (input) SEQUENCE_BITS :: nat where "SEQUENCE_BITS \<equiv> 12"

text \<open>The static members before \<open>init\<close>.\<close>

definition sf_initial :: snowflake where
  "sf_initial = \<lparr>sf_service_id = INIT_SERVICE_BITS, sf_sequence_id = 0, sf_last_timestamp = 0,
                 sf_custom_epoch = 0, sf_ticks = 0\<rparr>"

section \<open>Operations\<close>

definition time_gen :: "(nat \<Rightarrow> u64) \<Rightarrow> (snowflake, u64) prog" where
  "time_gen clk s = (Ret (clk (sf_ticks s)), s\<lparr>sf_ticks := Suc (sf_ticks s)\<rparr>)"

definition sf_init :: "(nat \<Rightarrow> u64) \<Rightarrow> u64 \<Rightarrow> u64 \<Rightarrow> (snowflake, unit) prog" where
  "sf_init clk service_id custom_epoch =
     andthen (gets sf_service_id) (\<lambda>cur.
       if cur \<noteq> INIT_SERVICE_BITS
       then raise (RuntimeError ''SnowFlake has already been initialized. '')
       else if service_id \<ge> INIT_SERVICE_BITS
       then raise (RuntimeError ''SnowFlake must be inited with service bits <= 1023 and >= 0'')
       else andthen (modify (sf_service_id_update (\<lambda>_. service_id))) (\<lambda>_.
            andthen (time_gen clk) (\<lambda>now.
              modify (\<lambda>s. s\<lparr>sf_last_timestamp := now, sf_custom_epoch := custom_epoch\<rparr>))))"

text \<open>
  \<open>while (time_gen() <= now) { yield(); now = time_gen(); } return now;\<close>
  with \<open>n\<close> the next reading of the clock: \<open>None\<close> is a loop that spins for ever. Note that
  the value returned is the reading before the one that ended the loop.
\<close>

partial_function (option) wait_loop :: "(nat \<Rightarrow> u64) \<Rightarrow> u64 \<Rightarrow> nat \<Rightarrow> (u64 \<times> nat) option" where
  "wait_loop clk now n =
     (if clk n \<le> now then wait_loop clk (clk (Suc n)) (Suc (Suc n)) else Some (now, Suc n))"

definition wait_till_next_ms :: "(nat \<Rightarrow> u64) \<Rightarrow> (snowflake, u64) prog" where
  "wait_till_next_ms clk =
     andthen (time_gen clk) (\<lambda>now s.
       case wait_loop clk now (sf_ticks s) of
         None \<Rightarrow> (Hang, s)
       | Some (t, n) \<Rightarrow> (Ret t, s\<lparr>sf_ticks := n\<rparr>))"

text \<open>The id from its parts: \<open>(t << 22) | (service << 12) | sequence\<close>.\<close>

definition compose_id :: "u64 \<Rightarrow> u64 \<Rightarrow> u64 \<Rightarrow> u64" where
  "compose_id t svc sq =
     push_bit (SERVICE_BITS + SEQUENCE_BITS) t OR push_bit SEQUENCE_BITS svc OR sq"

text \<open>
  The comparisons of \<open>time_stamp\<close> with \<open>last_timestamp_\<close> convert the signed member to
  \<open>u64\<close>, so they are unsigned comparisons of the same bits. \<open>1 << (SEQUENCE_BITS - 1)\<close> is
  2048.
\<close>

definition next_id :: "(nat \<Rightarrow> u64) \<Rightarrow> (snowflake, u64) prog" where
  "next_id clk =
     andthen (gets id) (\<lambda>s0.
       if sf_service_id s0 = INIT_SERVICE_BITS
       then raise (RuntimeError ''SnowFlake need to be initialized first!'')
       else andthen (time_gen clk) (\<lambda>now.
         if now < sf_last_timestamp s0
         then raise (RuntimeError (''Clock moved backwards. Refusing to generate id for '' @ to_string now @ '' milliseconds''))
         else andthen
           (if now = sf_last_timestamp s0
            then andthen (modify (\<lambda>s. s\<lparr>sf_sequence_id := sf_sequence_id s + 1\<rparr>)) (\<lambda>_.
                 andthen (gets sf_sequence_id) (\<lambda>sq.
                   if sq \<ge> push_bit (SEQUENCE_BITS - 1) 1 then wait_till_next_ms clk else ret now))
            else andthen (modify (\<lambda>s. s\<lparr>sf_sequence_id := 0\<rparr>)) (\<lambda>_. ret now))
           (\<lambda>time_stamp.
             andthen (modify (\<lambda>s. s\<lparr>sf_last_timestamp := time_stamp\<rparr>)) (\<lambda>_.
             andthen (gets id) (\<lambda>s.
               ret (compose_id (time_stamp - sf_custom_epoch s)
                      (sf_service_id s) (sf_sequence_id s)))))))"

text \<open>The decoder of \<open>src/tests/snowflake_test.hpp\<close>: (sequence, service, timestamp).\<close>

definition parse_id :: "u64 \<Rightarrow> u64 \<Rightarrow> u64 \<times> u64 \<times> u64" where
  "parse_id own_epoch i =
     (let sequence_id = i AND (push_bit SEQUENCE_BITS 1 - 1);
          i1 = drop_bit SEQUENCE_BITS i;
          service_id = i1 AND (push_bit SERVICE_BITS 1 - 1);
          i2 = drop_bit SERVICE_BITS i1;
          timestamp = i2 + own_epoch
      in (sequence_id, service_id, timestamp))"

section \<open>The layout of an id\<close>

lemma lt_pow_take_bit: "n < 64 \<Longrightarrow> unat (x::u64) < 2 ^ n \<longleftrightarrow> take_bit n x = x"
  by (metis take_bit_nat_eq_self_iff unsigned_take_bit_eq word_eq_iff_unsigned take_bit_nat_eq_self)

lemma take_bit_selfD: "take_bit n (x::u64) = x \<Longrightarrow> bit x k \<Longrightarrow> k < n"
  by (metis bit_take_bit_iff)

lemma compose_fields:
  assumes "take_bit 12 sq = (sq::u64)" "take_bit 10 svc = svc"
  shows "take_bit 12 (compose_id t svc sq) = sq"
    and "take_bit 10 (drop_bit 12 (compose_id t svc sq)) = svc"
    and "drop_bit 22 (compose_id t svc sq) = take_bit 42 t"
proof -
  show "take_bit 12 (compose_id t svc sq) = sq"
    by (rule bit_word_eqI) (auto simp: compose_id_def bit_simps dest: take_bit_selfD [OF assms(1)])
  show "take_bit 10 (drop_bit 12 (compose_id t svc sq)) = svc"
    by (rule bit_word_eqI) (auto simp: compose_id_def bit_simps
       dest: take_bit_selfD [OF assms(1)] take_bit_selfD [OF assms(2)])
  show "drop_bit 22 (compose_id t svc sq) = take_bit 42 t"
    by (rule bit_word_eqI) (auto simp: compose_id_def bit_simps
       dest: take_bit_selfD [OF assms(1)] take_bit_selfD [OF assms(2)])
qed

lemma compose_unat:
  assumes "unat sq < 2^12" "unat svc < 2^10" "unat t < 2^42"
  shows "unat (compose_id t svc sq) = unat t * 2^22 + unat svc * 2^12 + unat sq"
proof -
  let ?i = "compose_id t svc sq"
  have f: "take_bit 12 sq = sq" "take_bit 10 svc = svc" "take_bit 42 t = t"
    using assms by (simp_all flip: lt_pow_take_bit)
  have "unat ?i div 2^22 = unat t"
    using compose_fields(3) [OF f(1,2), of t] f(3) by (metis unat_drop_bit_eq drop_bit_eq_div)
  moreover have "unat ?i div 2^12 mod 2^10 = unat svc"
    using compose_fields(2) [OF f(1,2), of t]
    by (metis unat_drop_bit_eq drop_bit_eq_div unsigned_take_bit_eq take_bit_eq_mod)
  moreover have "unat ?i mod 2^12 = unat sq"
    using compose_fields(1) [OF f(1,2), of t] by (metis unsigned_take_bit_eq take_bit_eq_mod)
  moreover have "n = (n div 2^22) * 2^22 + (n div 2^12 mod 2^10) * 2^12 + n mod 2^12" for n :: nat
  proof -
    define a b c where "a = n div 2^12 div 2^10" and "b = n div 2^12 mod 2^10" and "c = n mod 2^12"
    have "n = (a * 2^10 + b) * 2^12 + c"
      unfolding a_def b_def c_def by (simp only: div_mult_mod_eq)
    then have "n = a * 2^22 + b * 2^12 + c" by simp
    moreover have "n div 2^22 = a" unfolding a_def by (simp flip: div_mult2_eq)
    ultimately show ?thesis by (simp only: b_def c_def)
  qed
  ultimately show ?thesis by metis
qed

section \<open>Invariant and key\<close>

text \<open>
  \<open>clock_ok\<close>: the clock never steps back, is not before the epoch and stays within the
  42 bits that are left for the time (139 years). \<open>sf_key\<close> is the number an id encodes.
\<close>

definition clock_ok :: "(nat \<Rightarrow> u64) \<Rightarrow> u64 \<Rightarrow> bool" where
  "clock_ok clk epoch \<longleftrightarrow>
     (\<forall>i j. i \<le> j \<longrightarrow> clk i \<le> clk j) \<and> (\<forall>i. epoch \<le> clk i \<and> unat (clk i) - unat epoch < 2 ^ 42)"

definition sf_inv :: "(nat \<Rightarrow> u64) \<Rightarrow> snowflake \<Rightarrow> bool" where
  "sf_inv clk s \<longleftrightarrow>
     clock_ok clk (sf_custom_epoch s) \<and> sf_service_id s < INIT_SERVICE_BITS \<and>
     unat (sf_sequence_id s) \<le> 2048 \<and> sf_custom_epoch s \<le> sf_last_timestamp s \<and>
     sf_last_timestamp s \<le> clk (sf_ticks s) \<and>
     (sf_sequence_id s = 2048 \<longrightarrow> sf_last_timestamp s < clk (sf_ticks s))"

definition sf_key :: "snowflake \<Rightarrow> nat" where
  "sf_key s = (unat (sf_last_timestamp s) - unat (sf_custom_epoch s)) * 2 ^ 22
     + unat (sf_service_id s) * 2 ^ 12 + unat (sf_sequence_id s)"

section \<open>One call of \<open>next_id\<close>\<close>

lemma wait_loop_result:
  assumes "wait_loop clk now n = Some (t, n')"
  shows "n < n' \<and> t < clk (n' - 1) \<and> (t = now \<or> (\<exists>j. n \<le> j \<and> j < n' \<and> t = clk j))"
proof -
  let ?P = "\<lambda>clk now n (r :: u64 \<times> nat). n < snd r \<and> fst r < clk (snd r - 1) \<and>
        (fst r = now \<or> (\<exists>j. n \<le> j \<and> j < snd r \<and> fst r = clk j))"
  have "?P clk now n (t, n')"
  proof (rule wait_loop.raw_induct [where P = ?P, OF _ assms])
    fix f clk now n r
    assume IH: "\<And>clk now n r. f clk now n = Some r \<Longrightarrow> ?P clk now n r"
      and eq: "(if clk n \<le> now then f clk (clk (Suc n)) (Suc (Suc n)) else Some (now, Suc n)) = Some r"
    show "?P clk now n r"
    proof (cases "clk n \<le> now")
      case True
      with eq have "f clk (clk (Suc n)) (Suc (Suc n)) = Some r" by simp
      from IH [OF this] show ?thesis by (metis Suc_lessD le_SucI order_refl Suc_leD)
    next
      case False
      with eq show ?thesis by auto
    qed
  qed
  then show ?thesis by simp
qed

lemmas sf_unfold = next_id_def time_gen_def wait_till_next_ms_def andthen_def gets_def modify_def
  ret_def raise_def

lemma next_id_ret_cases:
  assumes "next_id clk s = (Ret x, s')"
  obtains
    (fresh_ms) "sf_last_timestamp s < clk (sf_ticks s)"
      "s' = s\<lparr>sf_sequence_id := 0, sf_last_timestamp := clk (sf_ticks s), sf_ticks := Suc (sf_ticks s)\<rparr>"
  | (same_ms) "clk (sf_ticks s) = sf_last_timestamp s" "sf_sequence_id s + 1 < 2048"
      "s' = s\<lparr>sf_sequence_id := sf_sequence_id s + 1, sf_ticks := Suc (sf_ticks s)\<rparr>"
  | (overflow) t n where "clk (sf_ticks s) = sf_last_timestamp s" "2048 \<le> sf_sequence_id s + 1"
      "wait_loop clk (clk (Suc (sf_ticks s))) (Suc (Suc (sf_ticks s))) = Some (t, n)"
      "s' = s\<lparr>sf_sequence_id := sf_sequence_id s + 1, sf_last_timestamp := t, sf_ticks := n\<rparr>"
  using assms
  by (auto simp: sf_unfold Let_def not_less split: if_splits option.splits)

lemma next_id_ret_value:
  assumes "next_id clk s = (Ret x, s')"
  shows "x = compose_id (sf_last_timestamp s' - sf_custom_epoch s') (sf_service_id s') (sf_sequence_id s')"
    and "sf_custom_epoch s' = sf_custom_epoch s" and "sf_service_id s' = sf_service_id s"
    and "sf_service_id s \<noteq> INIT_SERVICE_BITS"
  using assms
  by (auto simp: sf_unfold split: if_splits option.splits)

lemma sf_inv_key_value:
  assumes "sf_inv clk s"
  shows "unat (compose_id (sf_last_timestamp s - sf_custom_epoch s) (sf_service_id s) (sf_sequence_id s))
           = sf_key s"
proof -
  from assms have le: "sf_custom_epoch s \<le> sf_last_timestamp s"
    and lc: "sf_last_timestamp s \<le> clk (sf_ticks s)"
    and ck: "unat (clk (sf_ticks s)) - unat (sf_custom_epoch s) < 2 ^ 42"
    by (auto simp: sf_inv_def clock_ok_def)
  have d: "unat (sf_last_timestamp s - sf_custom_epoch s)
             = unat (sf_last_timestamp s) - unat (sf_custom_epoch s)"
    using le by (rule unat_sub)
  moreover have "unat (sf_last_timestamp s) - unat (sf_custom_epoch s) < 2 ^ 42"
    using lc ck by (simp add: word_le_nat_alt)
  moreover have "unat (sf_sequence_id s) < 2 ^ 12" "unat (sf_service_id s) < 2 ^ 10"
    using assms by (auto simp: sf_inv_def word_less_nat_alt)
  ultimately show ?thesis by (simp only: compose_unat sf_key_def)
qed

lemma next_id_step:
  assumes inv: "sf_inv clk s" and run: "next_id clk s = (Ret x, s')"
  shows "sf_inv clk s' \<and> sf_key s < sf_key s'"
proof -
  from inv have ck: "clock_ok clk (sf_custom_epoch s)" by (simp add: sf_inv_def)
  then have mono: "i \<le> j \<Longrightarrow> clk i \<le> clk j" for i j by (simp add: clock_ok_def)
  from run show ?thesis
  proof (cases rule: next_id_ret_cases)
    case fresh_ms
    have "unat (sf_last_timestamp s) < unat (clk (sf_ticks s))"
      using fresh_ms(1) by (simp add: word_less_nat_alt)
    moreover have "unat (sf_custom_epoch s) \<le> unat (sf_last_timestamp s)"
      using inv by (simp add: sf_inv_def word_le_nat_alt)
    moreover have "unat (sf_sequence_id s) \<le> 2048" using inv by (simp add: sf_inv_def)
    ultimately have "sf_key s < sf_key s'" by (simp add: sf_key_def fresh_ms(2))
    moreover have "sf_inv clk s'"
      using inv mono [of "sf_ticks s" "Suc (sf_ticks s)"] fresh_ms(1)
      by (auto simp: sf_inv_def fresh_ms(2) clock_ok_def)
    ultimately show ?thesis by simp
  next
    case same_ms
    have q: "unat (sf_sequence_id s + 1) = Suc (unat (sf_sequence_id s))" "unat (sf_sequence_id s + 1) < 2048"
      using same_ms(2) inv by (auto simp: sf_inv_def word_less_nat_alt unat_word_ariths)
    then have "sf_key s < sf_key s'" by (simp add: sf_key_def same_ms(3))
    moreover have "sf_inv clk s'"
      using inv mono [of "sf_ticks s" "Suc (sf_ticks s)"] q same_ms(1,2)
      by (auto simp: sf_inv_def same_ms(3))
    ultimately show ?thesis by simp
  next
    case (overflow t n)
    note w = wait_loop_result [OF overflow(3)]
    then have "clk (sf_ticks s) \<le> t" by (auto intro: mono)
    moreover from w have "t < clk (n - 1)" by simp
    moreover have "clk (n - 1) \<le> clk n" by (rule mono) simp
    ultimately have t: "sf_last_timestamp s \<le> t" "t < clk n"
      using overflow(1) by auto
    have ns: "sf_sequence_id s \<noteq> 2048" using inv overflow(1) by (auto simp: sf_inv_def)
    then have "unat (sf_sequence_id s) \<noteq> 2048" by (simp add: word_unat_eq_iff)
    then have q: "unat (sf_sequence_id s + 1) = 2048" "unat (sf_sequence_id s) = 2047"
      using overflow(2) inv by (auto simp: sf_inv_def word_le_nat_alt unat_word_ariths)
    have "sf_key s < sf_key s'"
      using t(1) q by (simp add: sf_key_def overflow(4) word_le_nat_alt)
    moreover have "sf_inv clk s'"
      using inv t q by (auto simp: sf_inv_def overflow(4))
    ultimately show ?thesis by simp
  qed
qed

section \<open>Runs of the generator\<close>

interpretation sf: id_supply "next_id clk" "sf_inv clk" sf_key for clk
proof
  fix s s' x
  assume inv: "sf_inv clk s" and run: "next_id clk s = (Ret x, s')"
  note step = next_id_step [OF inv run]
  show "sf_inv clk s'" and "sf_key s < sf_key s'" using step by simp_all
  show "unat x = sf_key s'"
    using step next_id_ret_value(1) [OF run] sf_inv_key_value [of clk s'] by simp
qed

lemma sf_init_inv:
  assumes "sf_init clk svc epoch sf_initial = (Ret (), s)" "clock_ok clk epoch"
  shows "sf_inv clk s" "sf_service_id s = svc" "sf_custom_epoch s = epoch"
  using assms
  by (auto simp: sf_init_def sf_initial_def sf_unfold sf_inv_def clock_ok_def split: if_splits)

lemma sf_inv_fields:
  assumes "sf_inv clk s"
  shows "take_bit SEQUENCE_BITS (sf_sequence_id s) = sf_sequence_id s"
    and "take_bit SERVICE_BITS (sf_service_id s) = sf_service_id s"
    and "take_bit 42 (sf_last_timestamp s - sf_custom_epoch s) = sf_last_timestamp s - sf_custom_epoch s"
proof -
  from assms have "unat (sf_sequence_id s) < 2 ^ 12" "unat (sf_service_id s) < 2 ^ 10"
    by (auto simp: sf_inv_def word_less_nat_alt)
  then show "take_bit SEQUENCE_BITS (sf_sequence_id s) = sf_sequence_id s"
    and "take_bit SERVICE_BITS (sf_service_id s) = sf_service_id s"
    by (simp_all flip: lt_pow_take_bit)
  from assms have "sf_custom_epoch s \<le> sf_last_timestamp s" "sf_last_timestamp s \<le> clk (sf_ticks s)"
    and "unat (clk (sf_ticks s)) - unat (sf_custom_epoch s) < 2 ^ 42"
    by (auto simp: sf_inv_def clock_ok_def)
  then have "unat (sf_last_timestamp s - sf_custom_epoch s) < 2 ^ 42"
    by (simp add: unat_sub word_le_nat_alt)
  then show "take_bit 42 (sf_last_timestamp s - sf_custom_epoch s) = sf_last_timestamp s - sf_custom_epoch s"
    by (simp flip: lt_pow_take_bit)
qed

lemma parse_id_fields:
  "parse_id e i = (take_bit SEQUENCE_BITS i, take_bit SERVICE_BITS (drop_bit SEQUENCE_BITS i), drop_bit 22 i + e)"
proof -
  have "push_bit 12 1 - 1 = (mask 12 :: u64)" "push_bit 10 1 - 1 = (mask 10 :: u64)"
    by (simp_all add: mask_eq_exp_minus_1 push_bit_eq_mult)
  moreover have "drop_bit SERVICE_BITS (drop_bit SEQUENCE_BITS i) = drop_bit 22 i"
    by simp
  ultimately show ?thesis
    by (simp only: parse_id_def Let_def flip: take_bit_eq_mask)
qed

lemma next_id_parse:
  assumes inv: "sf_inv clk s" and run: "next_id clk s = (Ret x, s')"
  shows "parse_id (sf_custom_epoch s) x = (sf_sequence_id s', sf_service_id s', sf_last_timestamp s')"
proof -
  from next_id_step [OF inv run] have "sf_inv clk s'" by simp
  note f = sf_inv_fields [OF this]
  show ?thesis
    using next_id_ret_value(1,2) [OF run] f
    by (simp add: parse_id_fields compose_fields)
qed

lemma run_service:
  "sf_inv clk s \<Longrightarrow> repeat_prog k (next_id clk) s = (Ret xs, s') \<Longrightarrow> x \<in> set xs \<Longrightarrow>
     fst (snd (parse_id 0 x)) = sf_service_id s"
proof (induction k arbitrary: s xs)
  case 0
  then show ?case by (simp add: ret_eq)
next
  case (Suc k)
  from Suc.prems(2) obtain y ys t where step:
    "next_id clk s = (Ret y, t)" "repeat_prog k (next_id clk) t = (Ret ys, s')" "xs = y # ys"
    by (auto simp: repeat_prog_Suc_eq simp del: repeat_prog.simps)
  have "fst (snd (parse_id 0 y)) = sf_service_id s"
    using next_id_parse [OF Suc.prems(1) step(1)] next_id_ret_value(3) [OF step(1)]
    by (simp add: parse_id_fields)
  moreover have "fst (snd (parse_id 0 x)) = sf_service_id s" if "x \<in> set ys"
    using Suc.IH [OF sf.gen_good [OF Suc.prems(1) step(1)] step(2) that] next_id_ret_value(3) [OF step(1)]
    by simp
  ultimately show ?case using Suc.prems(3) step(3) by auto
qed

section \<open>The spin loop\<close>

lemma wait_loop_returns_if:
  "now < clk n \<or> (\<exists>k'\<le>k. clk (Suc n + 2 * k') < clk (Suc (Suc n + 2 * k'))) \<Longrightarrow> wait_loop clk now n \<noteq> None"
proof (induction k arbitrary: now n)
  case 0
  then show ?case by (auto simp: wait_loop.simps [of clk now n] wait_loop.simps [of clk "clk (Suc n)"])
next
  case (Suc k)
  show ?case
  proof (cases "now < clk n")
    case True
    then have "\<not> clk n \<le> now" by simp
    then show ?thesis by (simp add: wait_loop.simps [of clk now n])
  next
    case False
    with Suc.prems obtain k' where k': "k' \<le> Suc k" "clk (Suc n + 2 * k') < clk (Suc (Suc n + 2 * k'))"
      by auto
    have "wait_loop clk (clk (Suc n)) (Suc (Suc n)) \<noteq> None"
    proof (cases k')
      case 0
      with k' show ?thesis by (intro Suc.IH) simp
    next
      case (Suc j)
      with k' show ?thesis by (intro Suc.IH disjI2 exI [of _ j]) simp
    qed
    with False show ?thesis by (simp add: wait_loop.simps [of clk now n])
  qed
qed

lemma wait_loop_returns_only_if:
  assumes "wait_loop clk now n = Some r"
  shows "now < clk n \<or> (\<exists>k. clk (Suc n + 2 * k) < clk (Suc (Suc n + 2 * k)))"
proof -
  let ?P = "\<lambda>clk now n (r :: u64 \<times> nat). now < clk n \<or> (\<exists>k. clk (Suc n + 2 * k) < clk (Suc (Suc n + 2 * k)))"
  show "?P clk now n r"
  proof (rule wait_loop.raw_induct [where P = ?P, OF _ assms])
    fix f clk now n r
    assume IH: "\<And>clk now n r. f clk now n = Some r \<Longrightarrow> ?P clk now n r"
      and eq: "(if clk n \<le> now then f clk (clk (Suc n)) (Suc (Suc n)) else Some (now, Suc n)) = Some r"
    show "?P clk now n r"
    proof (cases "clk n \<le> now")
      case True
      with eq have "f clk (clk (Suc n)) (Suc (Suc n)) = Some r" by simp
      from IH [OF this] consider "clk (Suc n) < clk (Suc (Suc n))"
        | k where "clk (Suc (Suc (Suc n)) + 2 * k) < clk (Suc (Suc (Suc (Suc n)) + 2 * k))" by blast
      then show ?thesis
      proof cases
        case 1
        then show ?thesis by (intro disjI2 exI [of _ 0]) simp
      next
        case 2
        then show ?thesis by (intro disjI2 exI [of _ "Suc k"]) simp
      qed
    next
      case False
      then show ?thesis by (simp add: not_le)
    qed
  qed
qed

lemma wait_till_next_ms_hangs_iff:
  "fst (wait_till_next_ms clk s) = Hang \<longleftrightarrow>
     \<not> (\<exists>k. clk (sf_ticks s + 2 * k) < clk (Suc (sf_ticks s + 2 * k)))" (is "?L \<longleftrightarrow> \<not> ?R")
proof -
  let ?n = "sf_ticks s"
  have R: "?R \<longleftrightarrow> clk ?n < clk (Suc ?n) \<or> (\<exists>k. clk (Suc (Suc ?n) + 2 * k) < clk (Suc (Suc (Suc ?n) + 2 * k)))"
  proof (rule iffI; elim exE disjE)
    fix k assume "clk (?n + 2 * k) < clk (Suc (?n + 2 * k))"
    then show "clk ?n < clk (Suc ?n) \<or> (\<exists>k. clk (Suc (Suc ?n) + 2 * k) < clk (Suc (Suc (Suc ?n) + 2 * k)))"
      by (cases k) auto
  next
    assume "clk ?n < clk (Suc ?n)"
    then show ?R by (intro exI [of _ 0]) simp
  next
    fix k assume "clk (Suc (Suc ?n) + 2 * k) < clk (Suc (Suc (Suc ?n) + 2 * k))"
    then show ?R by (intro exI [of _ "Suc k"]) simp
  qed
  have "?L \<longleftrightarrow> wait_loop clk (clk ?n) (Suc ?n) = None"
    by (simp add: wait_till_next_ms_def andthen_def time_gen_def split: option.splits prod.splits)
  moreover have "wait_loop clk (clk ?n) (Suc ?n) \<noteq> None \<longleftrightarrow> ?R"
    unfolding R using wait_loop_returns_if wait_loop_returns_only_if by (metis not_None_eq order_refl)
  ultimately show ?thesis by blast
qed

lemma same_ms_run:
  assumes "\<And>i. i < k \<Longrightarrow> clk (sf_ticks s + i) = sf_last_timestamp s"
    and "unat (sf_sequence_id s) + k < 2048" and "sf_service_id s \<noteq> INIT_SERVICE_BITS"
  shows "\<exists>xs. repeat_prog k (next_id clk) s =
    (Ret xs, s\<lparr>sf_sequence_id := sf_sequence_id s + of_nat k, sf_ticks := sf_ticks s + k\<rparr>)"
  using assms
proof (induction k arbitrary: s)
  case 0
  then show ?case by (simp add: ret_eq)
next
  case (Suc k)
  let ?t = "s\<lparr>sf_sequence_id := sf_sequence_id s + 1, sf_ticks := Suc (sf_ticks s)\<rparr>"
  have q: "unat (sf_sequence_id s + 1) = Suc (unat (sf_sequence_id s))"
    using Suc.prems(2) by (simp add: unat_word_ariths)
  have "clk (sf_ticks s) = sf_last_timestamp s" using Suc.prems(1) [of 0] by simp
  moreover have "\<not> 2048 \<le> sf_sequence_id s + 1"
    using q Suc.prems(2) by (simp add: word_le_nat_alt)
  ultimately have "\<exists>x. next_id clk s = (Ret x, ?t)"
    using Suc.prems(3) by (simp add: sf_unfold)
  then obtain x where x: "next_id clk s = (Ret x, ?t)" ..
  have "\<exists>xs. repeat_prog k (next_id clk) ?t =
    (Ret xs, ?t\<lparr>sf_sequence_id := sf_sequence_id ?t + of_nat k, sf_ticks := sf_ticks ?t + k\<rparr>)"
  proof (rule Suc.IH)
    show "clk (sf_ticks ?t + i) = sf_last_timestamp ?t" if "i < k" for i
      using Suc.prems(1) [of "Suc i"] that by simp
  qed (use q Suc.prems in simp_all)
  then show ?case using x
    by (fastforce simp: repeat_prog_Suc_eq add.assoc simp del: repeat_prog.simps)
qed

abbreviation (input) sf_at :: "u64 \<Rightarrow> u64 \<Rightarrow> nat \<Rightarrow> snowflake" where
  "sf_at q t n \<equiv> \<lparr>sf_service_id = 0, sf_sequence_id = q, sf_last_timestamp = t,
                   sf_custom_epoch = 0, sf_ticks = n\<rparr>"

section \<open>Properties\<close>


definition demo_clock :: "nat \<Rightarrow> u64" where
  "demo_clock i = (if i = 0 then 100 else 101)"

lemma demo_clock_ok: "clock_ok demo_clock 50"
  by (simp add: clock_ok_def demo_clock_def)




text \<open>C31: The decoder of the test suite, run with the server's epoch, gives back from an id the
  sequence number, the service id and the millisecond the generator used for it: no field
  overflows into its neighbour.\<close>

theorem next_id_roundtrip:
  assumes "sf_inv clk s" and "next_id clk s = (Ret x, s')"
  shows "parse_id (sf_custom_epoch s) x = (sf_sequence_id s', sf_service_id s, sf_last_timestamp s')"
  using next_id_parse [OF assms] next_id_ret_value(3) [OF assms(2)] by simp

theorem next_id_roundtrip_witness:
  "\<exists>x s'. next_id demo_clock (sf_at 0 101 1) = (Ret x, s') \<and>
     parse_id (sf_custom_epoch (sf_at 0 101 1)) x = (sf_sequence_id s', 0, sf_last_timestamp s') \<and> sf_sequence_id s' = 1"
proof -
  have inv: "sf_inv demo_clock (sf_at 0 101 1)"
    by (simp add: sf_inv_def clock_ok_def demo_clock_def word_le_nat_alt)
  have run: "next_id demo_clock (sf_at 0 101 1) = (Ret (compose_id 101 0 1), sf_at 1 101 2)"
    by (simp add: sf_unfold demo_clock_def word_le_nat_alt)
  from next_id_roundtrip [OF inv run] run show ?thesis by auto
qed

text \<open>\<open>next_id\<close> throws exactly when the generator was not initialised or the clock reads less
  than the millisecond of the last id; it never returns an id then.\<close>

theorem next_id_throws_iff:
  "(\<exists>e. fst (next_id clk s) = Throw e) \<longleftrightarrow>
     sf_service_id s = INIT_SERVICE_BITS \<or> clk (sf_ticks s) < sf_last_timestamp s"
  by (auto simp: sf_unfold split: option.splits)

text \<open>The spin loop of \<open>wait_till_next_ms\<close> never returns exactly when the clock shows no tick
  between the reading taken into \<open>now\<close> and the reading right after it: ticks that fall
  between the test and the next assignment of \<open>now\<close> are missed.\<close>

theorem wait_hangs_iff:
  "fst (wait_till_next_ms clk s) = Hang \<longleftrightarrow>
     \<not> (\<exists>k. clk (sf_ticks s + 2 * k) < clk (Suc (sf_ticks s + 2 * k)))"
  by (rule wait_till_next_ms_hangs_iff)

definition step_back_clock :: "nat \<Rightarrow> u64" where
  "step_back_clock i = (if i = 0 then 10 else if i = 2050 then 9 else if i = 2051 then 10 else 11)"

text \<open>The refusal of a clock that stepped back is not repeated after \<open>wait_till_next_ms\<close>, so
  a clock that steps back by two milliseconds while the generator waits out a full sequence makes
  it give an id a second time, without any exception.\<close>

theorem snowflake_duplicate_after_step_back:
  "\<exists>s1 ids s2. sf_init step_back_clock 0 0 sf_initial = (Ret (), s1) \<and>
     repeat_prog 2050 (next_id step_back_clock) s1 = (Ret ids, s2) \<and> \<not> distinct ids"
proof -
  let ?c = step_back_clock
  have a: "next_id ?c (sf_at 0 10 1) = (Ret (compose_id 11 0 0), sf_at 0 11 2)"
    by (simp add: sf_unfold step_back_clock_def word_less_nat_alt)
  have "\<exists>xs. repeat_prog 2047 (next_id ?c) (sf_at 0 11 2) = (Ret xs, (sf_at 0 11 2)
      \<lparr>sf_sequence_id := sf_sequence_id (sf_at 0 11 2) + of_nat 2047, sf_ticks := sf_ticks (sf_at 0 11 2) + 2047\<rparr>)"
    by (rule same_ms_run) (simp_all add: step_back_clock_def)
  then obtain xs where b: "repeat_prog 2047 (next_id ?c) (sf_at 0 11 2) = (Ret xs, sf_at 2047 11 2049)"
    by auto
  have c: "next_id ?c (sf_at 2047 11 2049) = (Ret (compose_id 9 0 2048), sf_at 2048 9 2052)"
    by (simp add: sf_unfold step_back_clock_def wait_loop.simps word_le_nat_alt)
  have d: "next_id ?c (sf_at 2048 9 2052) = (Ret (compose_id 11 0 0), sf_at 0 11 2053)"
    by (simp add: sf_unfold step_back_clock_def word_less_nat_alt)
  have one: "repeat_prog 1 (next_id ?c) s = (Ret [x], t)" if "next_id ?c s = (Ret x, t)" for s x t
    using that by (simp add: andthen_def ret_def)
  note run = repeat_prog_add [OF repeat_prog_add [OF repeat_prog_add [OF one [OF a] b] one [OF c]] one [OF d]]
  have "sf_init ?c 0 0 sf_initial = (Ret (), sf_at 0 10 1)"
    by (simp add: sf_init_def sf_unfold sf_initial_def step_back_clock_def)
  moreover have "\<not> distinct ((([compose_id 11 0 0] @ xs) @ [compose_id 9 0 2048]) @ [compose_id 11 0 0])"
    by simp
  moreover from run have "repeat_prog 2050 (next_id ?c) (sf_at 0 10 1) =
      (Ret ((([compose_id 11 0 0] @ xs) @ [compose_id 9 0 2048]) @ [compose_id 11 0 0]), sf_at 0 11 2053)"
    by (simp del: repeat_prog.simps)
  ultimately show ?thesis by blast
qed

end
