(* ===== verification/Json.thy ===== *)
theory Json
  imports CppStd
begin

text \<open>
  The values of \<open>boost::json\<close> and the accessors the source calls on them. The kinds are
  those of the library's \<open>json::value\<close>; the two 64-bit integer kinds are one constructor
  over \<open>int\<close>, and a double is kept as its text, since the server reads and writes none. An
  accessor applied to the wrong kind, or to a missing key, throws. Parsing and serialising are
  the library's and stay parameters of the model: a body or a message is the value it is the
  text of.
\<close>

datatype json =
    JNull
  | JBool bool
  | JInt int
  | JDouble string
  | JStr string
  | JArr "json list"
  | JObj "(string \<times> json) list"

definition as_object :: "json \<Rightarrow> (string \<times> json) list outcome" where
  "as_object v = (case v of JObj kvs \<Rightarrow> Ret kvs | _ \<Rightarrow> Throw (SystemError ''not_object''))"

definition is_object :: "json \<Rightarrow> bool" where
  "is_object v = (case v of JObj kvs \<Rightarrow> True | _ \<Rightarrow> False)"

definition is_string :: "json \<Rightarrow> bool" where
  "is_string v = (case v of JStr s \<Rightarrow> True | _ \<Rightarrow> False)"

text \<open>\<open>obj.contains(key)\<close>, \<open>obj.at(key)\<close>\<close>

definition obj_contains :: "(string \<times> json) list \<Rightarrow> string \<Rightarrow> bool" where
  "obj_contains obj key \<longleftrightarrow> map_of obj key \<noteq> None"

definition obj_at :: "(string \<times> json) list \<Rightarrow> string \<Rightarrow> json outcome" where
  "obj_at obj key = (case map_of obj key of None \<Rightarrow> Throw (SystemError ''out_of_range'') | Some v \<Rightarrow> Ret v)"

text \<open>\<open>jv.at(key)\<close> on a value: the member of the object it must be.\<close>

definition json_at :: "json \<Rightarrow> string \<Rightarrow> json outcome" where
  "json_at v key = obind (as_object v) (\<lambda>obj. obj_at obj key)"

text \<open>\<open>json::value_to<std::string>\<close>\<close>

definition value_to_string :: "json \<Rightarrow> string outcome" where
  "value_to_string v = (case v of JStr s \<Rightarrow> Ret s | _ \<Rightarrow> Throw (SystemError ''not_string''))"

text \<open>The two accesses every request model makes: a string member, and an id kept as a string.\<close>

definition str_field :: "(string \<times> json) list \<Rightarrow> string \<Rightarrow> string outcome" where
  "str_field obj key = obind (obj_at obj key) value_to_string"

definition id_field :: "(string \<times> json) list \<Rightarrow> string \<Rightarrow> u64 outcome" where
  "id_field obj key = obind (str_field obj key) stoull"

named_theorems json_simps "evaluation of the JSON accessors"

declare as_object_def [json_simps] obj_at_def [json_simps] json_at_def [json_simps]
  value_to_string_def [json_simps] str_field_def [json_simps] id_field_def [json_simps]

lemma as_object_Ret: "as_object v = Ret obj \<longleftrightarrow> v = JObj obj"
  by (auto simp: as_object_def split: json.splits)

lemma str_field_Ret: "str_field obj key = Ret s \<longleftrightarrow> map_of obj key = Some (JStr s)"
  by (auto simp: json_simps split: option.splits json.splits)

lemma id_field_Ret: "id_field obj key = Ret n \<longleftrightarrow> (\<exists>s. map_of obj key = Some (JStr s) \<and> stoull s = Ret n)"
  by (auto simp: id_field_def obind_eq_Ret str_field_Ret)

text \<open>A field access returns or throws, nothing else.\<close>

definition plain :: "'a outcome \<Rightarrow> bool" where
  "plain r \<longleftrightarrow> r \<noteq> Undef \<and> r \<noteq> Hang \<and> r \<noteq> Terminate"

lemma plain_obind: "plain r \<Longrightarrow> (\<And>x. plain (f x)) \<Longrightarrow> plain (obind r f)"
  by (cases r) (auto simp: plain_def)

lemma plain_fields [simp]: "plain (as_object v)" "plain (obj_at obj key)" "plain (str_field obj key)"
  "plain (id_field obj key)" "plain (Ret x)" "plain (Throw e)"
proof -
  show 1: "plain (as_object v)" by (simp add: plain_def as_object_def split: json.splits)
  show 2: "plain (obj_at obj key)" by (simp add: plain_def obj_at_def split: option.splits)
  show 3: "plain (str_field obj key)"
    unfolding str_field_def by (intro plain_obind 2) (simp add: plain_def value_to_string_def split: json.splits)
  show "plain (id_field obj key)"
    unfolding id_field_def by (intro plain_obind 3) (simp add: plain_def stoull_outcomes)
qed (simp_all add: plain_def)

interpretation json_text: codec JStr value_to_string
  by unfold_locales (simp add: value_to_string_def)

text \<open>Ids travel as JSON strings, so that a client keeps all 64 bits.\<close>

interpretation json_id: codec_chain to_string stoull JStr value_to_string
  by unfold_locales

end
