(* ===== verification/Enums.thy ===== *)
theory Enums
  imports Prelude
begin

text \<open>
  The enumerations of \<open>src/src/utils/enums.hpp\<close>: each is a datatype with the source's
  constructors and a function to the integer the source gives it (\<open>static_cast<int>\<close>).
  The codes are injective, and the roles of a group are ordered by theirs.
\<close>

datatype status_code =
    Success
  | Forbidden | BadRequest | NotFound | InternalServerError
  | LoginFailed | RegFailed | UserNotFound | IncorrectPwd
  | CreateRoomFailed

fun status_int :: "status_code \<Rightarrow> int" where
  "status_int Success = 0"
| "status_int Forbidden = 403"
| "status_int BadRequest = 400"
| "status_int NotFound = 404"
| "status_int InternalServerError = 500"
| "status_int LoginFailed = 1001"
| "status_int RegFailed = 1002"
| "status_int UserNotFound = 1003"
| "status_int IncorrectPwd = 1004"
| "status_int CreateRoomFailed = 2001"

datatype room_type = GROUP | PRIVATE

fun room_type_int :: "room_type \<Rightarrow> int" where
  "room_type_int GROUP = 1"
| "room_type_int PRIVATE = 2"

datatype group_role = OWNER | ADMIN | MEMBER | PRIVATE_MEMBER

fun role_int :: "group_role \<Rightarrow> int" where
  "role_int OWNER = 3"
| "role_int ADMIN = 2"
| "role_int MEMBER = 1"
| "role_int PRIVATE_MEMBER = 0"

datatype server_resp_type = MsgSentInfo | PMsgToSend | GMsgToSend | PermissionDenied

fun resp_type_int :: "server_resp_type \<Rightarrow> int" where
  "resp_type_int MsgSentInfo = 1"
| "resp_type_int PMsgToSend = 2"
| "resp_type_int GMsgToSend = 3"
| "resp_type_int PermissionDenied = 4"

lemma status_int_inj: "status_int a = status_int b \<longleftrightarrow> a = b"
  by (cases a; cases b) simp_all

lemma role_int_inj: "role_int a = role_int b \<longleftrightarrow> a = b"
  by (cases a; cases b) simp_all

lemma room_type_int_inj: "room_type_int a = room_type_int b \<longleftrightarrow> a = b"
  by (cases a; cases b) simp_all

lemma resp_type_int_inj: "resp_type_int a = resp_type_int b \<longleftrightarrow> a = b"
  by (cases a; cases b) simp_all

instantiation group_role :: linorder
begin

definition less_eq_group_role :: "group_role \<Rightarrow> group_role \<Rightarrow> bool" where
  "less_eq_group_role a b \<longleftrightarrow> role_int a \<le> role_int b"

definition less_group_role :: "group_role \<Rightarrow> group_role \<Rightarrow> bool" where
  "less_group_role a b \<longleftrightarrow> role_int a < role_int b"

instance
  by standard (auto simp: less_eq_group_role_def less_group_role_def role_int_inj)

end

lemma OWNER_greatest: "r \<le> OWNER"
  by (cases r) (simp_all add: less_eq_group_role_def)

lemma role_int_OWNER_iff: "role_int r = 3 \<longleftrightarrow> r = OWNER"
  by (cases r) simp_all

end
