(* ===== verification/Models.thy ===== *)
theory Models
  imports Json Enums
begin

text \<open>
  The request and response models of \<open>src/src/model/\<close>: a record per struct, and the
  conversions the \<open>tag_invoke\<close> overloads define. The lemmas say exactly which values a
  decoder accepts and that the ids the server writes are read back by the decoders of the
  requests that carry them.
\<close>

section \<open>Requests (\<open>value_to\<close>)\<close>

record login_request =
  lreq_username :: string
  lreq_password :: string

definition to_login_request :: "json \<Rightarrow> login_request outcome" where
  "to_login_request jv =
     obind (as_object jv) (\<lambda>obj.
     obind (str_field obj ''username'') (\<lambda>u.
     obind (str_field obj ''password'') (\<lambda>p.
       Ret \<lparr>lreq_username = u, lreq_password = p\<rparr>)))"

record register_request =
  rreq_username :: string
  rreq_password :: string
  rreq_email :: string
  rreq_nickname :: string

definition to_register_request :: "json \<Rightarrow> register_request outcome" where
  "to_register_request jv =
     obind (as_object jv) (\<lambda>obj.
     obind (str_field obj ''username'') (\<lambda>u.
     obind (str_field obj ''password'') (\<lambda>p.
     obind (str_field obj ''email'') (\<lambda>e.
     obind (str_field obj ''nickname'') (\<lambda>n.
       Ret \<lparr>rreq_username = u, rreq_password = p, rreq_email = e, rreq_nickname = n\<rparr>)))))"

record create_g_room_req = cgr_name :: string

definition to_create_g_room_req :: "json \<Rightarrow> create_g_room_req outcome" where
  "to_create_g_room_req jv =
     obind (as_object jv) (\<lambda>obj.
     obind (str_field obj ''name'') (\<lambda>n. Ret \<lparr>cgr_name = n\<rparr>))"

record create_p_room_req = cpr_other_id :: u64

definition to_create_p_room_req :: "json \<Rightarrow> create_p_room_req outcome" where
  "to_create_p_room_req jv =
     obind (as_object jv) (\<lambda>obj.
     obind (id_field obj ''other_id'') (\<lambda>i. Ret \<lparr>cpr_other_id = i\<rparr>))"

record g_room_invt_req = gri_invitee_id :: u64

definition to_g_room_invt_req :: "json \<Rightarrow> g_room_invt_req outcome" where
  "to_g_room_invt_req jv =
     obind (as_object jv) (\<lambda>obj.
     obind (id_field obj ''invitee_id'') (\<lambda>i. Ret \<lparr>gri_invitee_id = i\<rparr>))"

record client_private_msg =
  cpm_room_id :: u64
  cpm_other_user_id :: u64
  cpm_content :: string

definition to_client_private_msg :: "json \<Rightarrow> client_private_msg outcome" where
  "to_client_private_msg jv =
     obind (as_object jv) (\<lambda>obj.
     obind (id_field obj ''room_id'') (\<lambda>r.
     obind (id_field obj ''other_user_id'') (\<lambda>u.
     obind (str_field obj ''content'') (\<lambda>c.
       Ret \<lparr>cpm_room_id = r, cpm_other_user_id = u, cpm_content = c\<rparr>))))"

record client_group_msg =
  cgm_room_id :: u64
  cgm_content :: string

definition to_client_group_msg :: "json \<Rightarrow> client_group_msg outcome" where
  "to_client_group_msg jv =
     obind (as_object jv) (\<lambda>obj.
     obind (id_field obj ''room_id'') (\<lambda>r.
     obind (str_field obj ''content'') (\<lambda>c.
       Ret \<lparr>cgm_room_id = r, cgm_content = c\<rparr>)))"

section \<open>Responses (\<open>value_from\<close>)\<close>

record user_claims =
  uc_id :: u64
  uc_username :: string

record user =
  usr_id :: u64
  usr_username :: string
  usr_nickname :: string
  usr_email :: string
  usr_avatar_url :: string
  usr_created_at :: string

definition user_json :: "user \<Rightarrow> json" where
  "user_json u = JObj [(''id'', JStr (to_string (usr_id u))), (''username'', JStr (usr_username u)),
     (''nickname'', JStr (usr_nickname u)), (''email'', JStr (usr_email u)),
     (''avatar_url'', JStr (usr_avatar_url u)), (''created_at'', JStr (usr_created_at u))]"

record login_resp =
  lresp_token :: string
  lresp_user :: user

definition login_resp_json :: "login_resp \<Rightarrow> json" where
  "login_resp_json r = JObj [(''token'', JStr (lresp_token r)), (''user'', user_json (lresp_user r))]"

record create_g_room_resp = cgresp_room_id :: u64

definition create_g_room_resp_json :: "create_g_room_resp \<Rightarrow> json" where
  "create_g_room_resp_json r = JObj [(''room_id'', JStr (to_string (cgresp_room_id r)))]"

record create_p_room_resp = cpresp_room_id :: u64

definition create_p_room_resp_json :: "create_p_room_resp \<Rightarrow> json" where
  "create_p_room_resp_json r = JObj [(''room_id'', JStr (to_string (cpresp_room_id r)))]"

record room =
  rm_id :: u64
  rm_type :: i8
  rm_name :: string
  rm_description :: string
  rm_avatar_url :: string
  rm_last_message_id :: u64
  rm_member_count :: i32
  rm_created_at :: string

definition room_json :: "room \<Rightarrow> json" where
  "room_json r = JObj [(''id'', JStr (to_string (rm_id r))), (''type'', JInt (sint (rm_type r))),
     (''name'', JStr (rm_name r)), (''description'', JStr (rm_description r)),
     (''avatar_url'', JStr (rm_avatar_url r)),
     (''last_message_id'', JStr (to_string (rm_last_message_id r))),
     (''member_count'', JInt (sint (rm_member_count r))), (''created_at'', JStr (rm_created_at r))]"

record 't server_resp_msg =
  srm_type :: server_resp_type
  srm_data :: 't

definition server_resp_msg_json :: "('t \<Rightarrow> json) \<Rightarrow> 't server_resp_msg \<Rightarrow> json" where
  "server_resp_msg_json data_json m =
     JObj [(''type'', JInt (resp_type_int (srm_type m))), (''data'', data_json (srm_data m))]"

record private_msg_to_send =
  pms_private_room_id :: u64
  pms_content :: string

definition private_msg_to_send_json :: "private_msg_to_send \<Rightarrow> json" where
  "private_msg_to_send_json m =
     JObj [(''private_room_id'', JStr (to_string (pms_private_room_id m))), (''content'', JStr (pms_content m))]"

record group_msg_to_send =
  gms_room_id :: u64
  gms_sender_id :: u64
  gms_content :: string

definition group_msg_to_send_json :: "group_msg_to_send \<Rightarrow> json" where
  "group_msg_to_send_json m =
     JObj [(''room_id'', JStr (to_string (gms_room_id m))), (''sender_id'', JStr (to_string (gms_sender_id m))),
           (''content'', JStr (gms_content m))]"

text \<open>\<open>value_from\<close> of a \<open>nullptr\<close>, and \<open>ApiResponse<T>\<close> of \<open>core/request_handler.hpp\<close>.\<close>

definition null_json :: "unit \<Rightarrow> json" where
  "null_json _ = JNull"

record 't api_response =
  ar_code :: status_code
  ar_message :: string
  ar_data :: 't

definition api_response_json :: "('t \<Rightarrow> json) \<Rightarrow> 't api_response \<Rightarrow> json" where
  "api_response_json data_json r =
     JObj [(''code'', JInt (status_int (ar_code r))), (''message'', JStr (ar_message r)),
           (''data'', data_json (ar_data r))]"

section \<open>Lemmas\<close>

lemmas decoder_defs = to_login_request_def to_register_request_def to_create_g_room_req_def
  to_create_p_room_req_def to_g_room_invt_req_def to_client_private_msg_def to_client_group_msg_def

lemmas encoder_defs = user_json_def login_resp_json_def create_g_room_resp_json_def
  create_p_room_resp_json_def room_json_def server_resp_msg_json_def private_msg_to_send_json_def
  group_msg_to_send_json_def null_json_def api_response_json_def

lemma decoders_plain [simp]:
  "plain (to_login_request jv)" "plain (to_register_request jv)" "plain (to_create_g_room_req jv)"
  "plain (to_create_p_room_req jv)" "plain (to_g_room_invt_req jv)"
  "plain (to_client_private_msg jv)" "plain (to_client_group_msg jv)"
  unfolding decoder_defs by (intro plain_obind plain_fields)+

text \<open>A group message as the receiver gets it, read by the decoder of a group message.\<close>

lemma group_msg_echo:
  "to_client_group_msg (group_msg_to_send_json m) =
     Ret \<lparr>cgm_room_id = gms_room_id m, cgm_content = gms_content m\<rparr>"
  by (simp add: group_msg_to_send_json_def to_client_group_msg_def json_simps)

lemma api_data: "json_at (api_response_json f r) ''data'' = Ret (f (ar_data r))"
  by (simp add: api_response_json_def json_simps)

section \<open>Properties\<close>

text \<open>The login decoder accepts exactly the objects whose members \<open>username\<close> and
  \<open>password\<close> are strings, and returns these two; everything else throws.\<close>

theorem to_login_request_iff:
  "(to_login_request jv = Ret r \<longleftrightarrow>
      (\<exists>obj. jv = JObj obj \<and> map_of obj ''username'' = Some (JStr (lreq_username r)) \<and>
             map_of obj ''password'' = Some (JStr (lreq_password r)))) \<and>
   ((\<exists>r. to_login_request jv = Ret r) \<or> (\<exists>e. to_login_request jv = Throw e))"
proof -
  have "plain (to_login_request jv)" by simp
  then have "(\<exists>r. to_login_request jv = Ret r) \<or> (\<exists>e. to_login_request jv = Throw e)"
    by (cases "to_login_request jv") (auto simp: plain_def)
  then show ?thesis
    by (auto simp: to_login_request_def obind_eq_Ret as_object_Ret str_field_Ret)
qed

text \<open>The room id a client reads in the answer to \<open>/api/group_room\<close> or
  \<open>/api/private_room\<close>, sent back unchanged as the \<open>room_id\<close> of a message, is decoded to
  the very id the server created: all 64 bits survive the trip through JSON.\<close>

theorem room_id_roundtrip:
  "obind (obind (json_at (api_response_json create_g_room_resp_json
            \<lparr>ar_code = c, ar_message = m, ar_data = \<lparr>cgresp_room_id = i\<rparr>\<rparr>) ''data'') (\<lambda>d. json_at d ''room_id''))
      (\<lambda>v. to_client_group_msg (JObj [(''room_id'', v), (''content'', JStr txt)]))
     = Ret \<lparr>cgm_room_id = i, cgm_content = txt\<rparr> \<and>
   obind (obind (json_at (api_response_json create_p_room_resp_json
            \<lparr>ar_code = c, ar_message = m, ar_data = \<lparr>cpresp_room_id = i\<rparr>\<rparr>) ''data'') (\<lambda>d. json_at d ''room_id''))
      (\<lambda>v. to_client_private_msg (JObj [(''room_id'', v), (''other_user_id'', JStr (to_string u)), (''content'', JStr txt)]))
     = Ret \<lparr>cpm_room_id = i, cpm_other_user_id = u, cpm_content = txt\<rparr>"
  by (simp add: api_response_json_def create_g_room_resp_json_def create_p_room_resp_json_def decoder_defs json_simps)

text \<open>A receiver can tell the kind of every message the server sends: messages of different
  types differ in their \<open>type\<close> member, whatever their data are.\<close>

theorem server_messages_distinguishable:
  "json_at (server_resp_msg_json f m) ''type'' = json_at (server_resp_msg_json g n) ''type''
     \<longleftrightarrow> srm_type m = srm_type n"
  by (simp add: server_resp_msg_json_def json_simps resp_type_int_inj)

end
