(* ===== verification/ServerState.thy ===== *)
theory ServerState
  imports SqlPool Snowflake Models
begin

text \<open>
  What a worker thread sees while it runs a handler: the state of the server (\<open>sys\<close>, the
  database state of \<open>SqlPool\<close> extended with the id generator and the table of WebSocket
  sessions) and the code outside the repository that the handlers call (\<open>env\<close>: MySQL,
  JSON text, tokens, password hashing, files), as parameters. Handlers are programs over
  \<open>sys\<close>; each runs alone here, since what other threads do to the database is part of the
  arbitrary \<open>my_query\<close> and \<open>my_update\<close>.
\<close>

section \<open>State\<close>

text \<open>
  \<open>sys_sessions\<close> is \<open>WSSessionMgr::sessions_\<close>; a \<open>weak_ptr\<close> is the number of the
  session object, and \<open>sys_alive\<close> says which objects still exist, i.e. for which
  \<open>weak_ptr::lock\<close> gives an object.
\<close>

record 'w sys = "'w dbs" +
  sys_sf :: snowflake
  sys_sessions :: "u64 \<Rightarrow> nat option"
  sys_alive :: "nat \<Rightarrow> bool"

text \<open>A program of the id generator, run on its part of the state.\<close>

definition on_sf :: "(snowflake, 'a) prog \<Rightarrow> ('w sys, 'a) prog" where
  "on_sf m s = (case m (sys_sf s) of (r, sf) \<Rightarrow> (r, s\<lparr>sys_sf := sf\<rparr>))"

text \<open>Code outside the repository that reads or changes the world outside.\<close>

definition outside :: "('w \<Rightarrow> 'a \<times> 'w) \<Rightarrow> ('w sys, 'a) prog" where
  "outside f s = (case f (db_world s) of (x, w) \<Rightarrow> (Ret x, s\<lparr>db_world := w\<rparr>))"

section \<open>Parameters\<close>

datatype open_result = Opened nat | NoSuchFile | OpenFailed string

text \<open>
  A decoded token is its payload, a JSON object: \<open>jwt::decode\<close> throws on text that is not a
  token and checks no signature; \<open>sign\<close> is \<open>jwt::create\<close> with the given type, payload
  and HS256 secret. \<open>env_pwhash\<close> gives \<open>None\<close> when \<open>crypto_pwhash_str\<close> fails.
\<close>

record 'w env =
  env_mysql :: "'w mysql"
  env_db :: database_config
  env_server :: server_config
  env_clock :: "nat \<Rightarrow> u64"
  env_now :: "'w \<Rightarrow> int \<times> 'w"  \<comment> \<open>\<open>system_clock::now()\<close> in seconds\<close>
  env_parse :: "string \<Rightarrow> exn + json"
  env_serialize :: "json \<Rightarrow> string"
  env_jwt_decode :: "string \<Rightarrow> exn + (string \<times> json) list"
  env_jwt_sign :: "string \<Rightarrow> (string \<times> json) list \<Rightarrow> string \<Rightarrow> string"
  env_pwhash :: "string \<Rightarrow> 'w \<Rightarrow> string option \<times> 'w"
  env_pwverify :: "string \<Rightarrow> string \<Rightarrow> bool"
  env_open :: "string \<Rightarrow> 'w \<Rightarrow> open_result \<times> 'w"
  env_beast_version :: string

section \<open>Shared steps of the handlers\<close>

abbreviation (input) conn_scope :: "'w env \<Rightarrow> ('w sys, 'a) prog \<Rightarrow> ('w sys, 'a) prog" where
  "conn_scope E \<equiv> with_conn (env_mysql E) (env_db E)"

abbreviation (input) query :: "'w env \<Rightarrow> string \<Rightarrow> sql_param list \<Rightarrow> ('w sys, row list) prog" where
  "query E \<equiv> execute_query (env_mysql E) (env_db E)"

abbreviation (input) update :: "'w env \<Rightarrow> string \<Rightarrow> sql_param list \<Rightarrow> ('w sys, int) prog" where
  "update E \<equiv> execute_update (env_mysql E) (env_db E)"

definition sf_next :: "'w env \<Rightarrow> ('w sys, u64) prog" where
  "sf_next E = on_sf (next_id (env_clock E))"

definition post :: "nat \<Rightarrow> string \<Rightarrow> ('w sys, unit) prog" where
  "post h msg = modify (\<lambda>s. s\<lparr>db_log := db_log s @ [Post h msg]\<rparr>)"

lemma wp_on_sf [wp_intros]:
  "(\<And>r sf. Q r (s\<lparr>sys_sf := sf\<rparr>)) \<Longrightarrow> wp (on_sf m) Q s"
  by (simp add: wp_def on_sf_def split_beta)

lemma wp_sf_next [wp_intros]:
  "(\<And>r sf. Q r (s\<lparr>sys_sf := sf\<rparr>)) \<Longrightarrow> wp (sf_next E) Q s"
  by (simp add: sf_next_def wp_on_sf)

lemma wp_outside [wp_intros]:
  "(\<And>x w. Q (Ret x) (s\<lparr>db_world := w\<rparr>)) \<Longrightarrow> wp (outside f) Q s"
  by (simp add: wp_def outside_def split_beta)

lemma wp_post [wp_simps]: "wp (post h msg) Q s = Q (Ret ()) (s\<lparr>db_log := db_log s @ [Post h msg]\<rparr>)"
  by (simp add: post_def wp_modify)

lemma balanced_shared [balanced_intros]:
  "balanced (on_sf m)" "balanced (sf_next E)" "balanced (outside f)" "balanced (post h msg)"
  by (auto simp: balanced_def same_pool_def on_sf_def sf_next_def outside_def post_def modify_def
      split: prod.splits)

section \<open>A small server for witnesses\<close>

definition demo_env :: "unit mysql \<Rightarrow> unit env" where
  "demo_env M = \<lparr>env_mysql = M,
     env_db = \<lparr>db_pool_max_size = 1, db_server = ''db'', db_user = ''u'', db_passwd = ''p'', db_db = ''chat''\<rparr>,
     env_server = \<lparr>sv_host = ''0'', sv_port = 80, sv_doc_root = ''/srv/'', sv_io_threads = 1,
       sv_worker_threads = 1, sv_jwt_secret = ''s'', sv_log_file = ''l'', sv_queue_limit = 2,
       sv_custom_epoch = 1, sv_service_id = 1\<rparr>,
     env_clock = (\<lambda>n. of_nat n + 100), env_now = (\<lambda>w. (0, w)),
     env_parse = (\<lambda>b. Inr (JStr b)), env_serialize = (\<lambda>v. ''json''),
     env_jwt_decode = (\<lambda>t. Inr [(''sub'', JStr ''7''), (''username'', JStr t)]),
     env_jwt_sign = (\<lambda>ty p s. s), env_pwhash = (\<lambda>p w. (Some (rev p), w)),
     env_pwverify = (\<lambda>h p. h = rev p), env_open = (\<lambda>p w. (Opened 3, w)), env_beast_version = ''Boost.Beast''\<rparr>"

text \<open>One permit and one connection; user 7 is online as session 3, user 8's session 4 is gone.\<close>

definition demo_sys :: "unit sys" where
  "demo_sys = \<lparr>db_world = (), db_pool = \<lparr>sp_smph = Some 1, sp_max_conn = 1, sp_queue = [0]\<rparr>, db_conns = [], db_log = [],
     sys_sf = \<lparr>sf_service_id = 1, sf_sequence_id = 0, sf_last_timestamp = 1, sf_custom_epoch = 1, sf_ticks = 0\<rparr>,
     sys_sessions = [7 \<mapsto> 3, 8 \<mapsto> 4], sys_alive = (\<lambda>h. h = 3)\<rparr>"

lemmas demo_defs = demo_env_def demo_sys_def live_mysql_def

text \<open>Everything a concrete run of a handler unfolds to.\<close>

lemmas run_defs = andthen_def ret_def raise_def undef_def lift_def gets_def modify_def try_catch_def
  with_dtor_def with_conn_def raii_ctor_def raii_dtor_def raii_get_sql_def get_conn_def pool_get_sql_def
  free_conn_def on_pool_def sem_acquire_def sem_release_def pop_conn_def push_conn_def top_conn_def
  is_valid_def db_call_def execute_query_def execute_update_def begin_transaction_def commit_def
  rollback_def post_def outside_def on_sf_def sf_next_def Let_def

end
