(* ===== verification/Auth.thy ===== *)
theory Auth
  imports ServerState
begin

text \<open>
  Tokens and passwords, \<open>src/src/core/request_handler.cpp\<close>: \<open>extract_user_claims\<close>,
  \<open>generate_login_token\<close>, \<open>hash_password\<close>, \<open>verify_password\<close>. jwt-cpp and libsodium
  are parameters of \<open>env\<close>.
\<close>

section \<open>Operations\<close>

text \<open>\<open>get_payload_claim(name).as_string()\<close>, and \<open>get_subject()\<close> for the claim \<open>sub\<close>.\<close>

definition claim_string :: "(string \<times> json) list \<Rightarrow> string \<Rightarrow> string outcome" where
  "claim_string payload name = (case map_of payload name of
       None \<Rightarrow> Throw (JwtError ''claim not found'')
     | Some (JStr v) \<Rightarrow> Ret v
     | Some _ \<Rightarrow> Throw (JwtError ''bad_cast''))"

definition extract_user_claims :: "'w env \<Rightarrow> string \<Rightarrow> user_claims outcome" where
  "extract_user_claims E token =
     obind (of_sum (env_jwt_decode E token)) (\<lambda>decoded.
       if \<not> obj_contains decoded ''username''
       then Throw (RuntimeError ''Token does not contain username claim'')
       else
         obind (claim_string decoded ''sub'') (\<lambda>sub.
         obind (stoull sub) (\<lambda>i.
         obind (claim_string decoded ''username'') (\<lambda>name.
           Ret \<lparr>uc_id = i, uc_username = name\<rparr>))))"

text \<open>The payload: issuer, subject, expiry in thirty days, name.\<close>

definition login_claims :: "string \<Rightarrow> u64 \<Rightarrow> int \<Rightarrow> (string \<times> json) list" where
  "login_claims username i now =
     [(''iss'', JStr ''tinychat_server''), (''sub'', JStr (to_string i)),
      (''exp'', JInt (now + 24 * 3600 * 30)), (''username'', JStr username)]"

definition generate_login_token :: "'w env \<Rightarrow> string \<Rightarrow> u64 \<Rightarrow> ('w sys, string) prog" where
  "generate_login_token E username i =
     andthen (outside (env_now E)) (\<lambda>now.
       ret (env_jwt_sign E ''JWS'' (login_claims username i now) (sv_jwt_secret (env_server E))))"

definition hash_password :: "'w env \<Rightarrow> string \<Rightarrow> ('w sys, string) prog" where
  "hash_password E plain_password =
     andthen (outside (env_pwhash E plain_password)) (\<lambda>h.
       case h of
         None \<Rightarrow> raise (RuntimeError ''Failed to hash password with Argon2id'')
       | Some hashed \<Rightarrow> ret hashed)"

definition verify_password :: "'w env \<Rightarrow> string \<Rightarrow> string \<Rightarrow> bool" where
  "verify_password E plain_password stored_hash = env_pwverify E stored_hash plain_password"

section \<open>Lemmas\<close>

lemma claim_string_plain [simp]: "plain (claim_string p n)"
  by (simp add: claim_string_def plain_def split: option.splits json.splits)

lemma plain_parts: "plain (of_sum r)" "plain (stoull v)" "plain a \<Longrightarrow> plain b \<Longrightarrow> plain (if c then a else b)"
  by (auto simp: plain_def stoull_outcomes)

lemma extract_plain: "plain (extract_user_claims E token)"
  unfolding extract_user_claims_def by (intro plain_obind plain_parts plain_fields claim_string_plain)

lemma balanced_auth [balanced_intros]: "balanced (generate_login_token E u i)" "balanced (hash_password E p)"
  unfolding generate_login_token_def hash_password_def by (intro balanced_intros)+

lemma wp_generate_login_token [wp_intros]:
  "(\<And>tok w. Q (Ret tok) (s\<lparr>db_world := w\<rparr>)) \<Longrightarrow> wp (generate_login_token E u i) Q s"
  by (simp add: generate_login_token_def wp_andthen wp_ret wp_outside)

lemma wp_hash_password [wp_intros]:
  "(\<And>r w. Q r (s\<lparr>db_world := w\<rparr>)) \<Longrightarrow> wp (hash_password E p) Q s"
  unfolding hash_password_def wp_andthen
  by (rule wp_outside) (auto simp: wp_ret wp_raise split: option.split)

lemma extract_login_claims:
  "env_jwt_decode E tok = Inr p \<Longrightarrow> map_of p ''sub'' = Some (JStr (to_string i)) \<Longrightarrow>
     map_of p ''username'' = Some (JStr u) \<Longrightarrow> extract_user_claims E tok = Ret \<lparr>uc_id = i, uc_username = u\<rparr>"
  by (simp add: extract_user_claims_def obj_contains_def claim_string_def)

section \<open>Properties\<close>

text \<open>
  The token a login returns is read back, by every handler, as the id and the name it was
  made for, provided that \<open>jwt::decode\<close> gives the payload that was signed.
\<close>

theorem login_token_roundtrip:
  assumes "env_now E (db_world s) = (now, w)"
    and "env_jwt_decode E (env_jwt_sign E ''JWS'' (login_claims username i now) (sv_jwt_secret (env_server E)))
      = Inr (login_claims username i now)"
  shows "\<exists>tok t. generate_login_token E username i s = (Ret tok, t) \<and>
    extract_user_claims E tok = Ret \<lparr>uc_id = i, uc_username = username\<rparr>"
  using extract_login_claims [OF assms(2), of i username] assms(1)
  by (simp add: generate_login_token_def andthen_def outside_def ret_def login_claims_def)

text \<open>A server whose \<open>sign\<close> and \<open>decode\<close> know one payload, whatever the secret.\<close>

definition bob_env :: "unit env" where
  "bob_env = (demo_env dead_mysql)\<lparr>env_jwt_decode := (\<lambda>t. Inr (login_claims ''bob'' 7 0))\<rparr>"

lemma login_token_roundtrip_witness:
  "\<exists>tok t. generate_login_token bob_env ''bob'' 7 demo_sys = (Ret tok, t) \<and>
     extract_user_claims bob_env tok = Ret \<lparr>uc_id = 7, uc_username = ''bob''\<rparr>"
  by (rule login_token_roundtrip [of _ _ 0 "()"]) (simp_all add: bob_env_def demo_env_def)

text \<open>
  The signature of a token is never checked: a payload signed with any secret is accepted,
  so whoever can write a token chooses the id the handlers act for.
\<close>

theorem forged_token_accepted:
  assumes "env_jwt_decode E (env_jwt_sign E ty (login_claims username victim now) attacker_secret)
      = Inr (login_claims username victim now)"
  shows "extract_user_claims E (env_jwt_sign E ty (login_claims username victim now) attacker_secret)
      = Ret \<lparr>uc_id = victim, uc_username = username\<rparr>"
  by (rule extract_login_claims [OF assms]) (simp_all add: login_claims_def)

lemma forged_token_accepted_witness:
  "sv_jwt_secret (env_server bob_env) \<noteq> ''other'' \<and>
     extract_user_claims bob_env (env_jwt_sign bob_env ''JWS'' (login_claims ''bob'' 7 0) ''other'')
       = Ret \<lparr>uc_id = 7, uc_username = ''bob''\<rparr>"
  using forged_token_accepted [of bob_env "''JWS''" "''bob''" 7 0 "''other''"]
  by (simp add: bob_env_def demo_env_def)

end
