(* ===== verification/RequestUtil.thy ===== *)
theory RequestUtil
  imports CppStd "HOL-Library.Char_ord" "HOL-Library.List_Lexorder"
begin

text \<open>
  The pure helpers of \<open>RequestHandler\<close> in \<open>src/src/core/request_handler.cpp\<close>: the path
  parameters of a target, media types and the id of a private room. The lemmas show that the
  scanning loop of \<open>extract_target_param\<close> picks a segment of the target split at its
  slashes, that \<open>mime_type\<close> is a table lookup on the lower-cased extension, and what a
  private room's id depends on.
\<close>

section \<open>Path parameters\<close>

function etp_loop :: "string \<Rightarrow> nat \<Rightarrow> nat \<Rightarrow> nat \<Rightarrow> string" where
  "etp_loop target index current end_pos =
     (if current \<le> index then
        (let start = end_pos in
         if start \<ge> length target then []
         else
           (let start = (if target ! start = CHR ''/'' then start + 1 else start);
                end_pos = (case find_from CHR ''/'' target start of None \<Rightarrow> length target | Some e \<Rightarrow> e)
            in if current = index then take (end_pos - start) (drop start target)
               else etp_loop target index (current + 1) end_pos))
      else [])"
  by pat_completeness auto
termination
  by (relation "measure (\<lambda>(target, index, current, end_pos). Suc index - current)") auto

declare etp_loop.simps [simp del]

definition extract_target_param :: "string \<Rightarrow> nat \<Rightarrow> string" where
  "extract_target_param target index = etp_loop target index 0 0"

text \<open>The specification: the target without its first slash, split at the slashes.\<close>

fun split_slash :: "string \<Rightarrow> string list" where
  "split_slash [] = [[]]"
| "split_slash (c # cs) =
     (if c = CHR ''/'' then [] # split_slash cs
      else (case split_slash cs of [] \<Rightarrow> [[c]] | seg # segs \<Rightarrow> (c # seg) # segs))"

definition path_segments :: "string \<Rightarrow> string list" where
  "path_segments s = (case s of [] \<Rightarrow> [] | c # cs \<Rightarrow> split_slash (if c = CHR ''/'' then cs else s))"

lemma split_slash_unfold:
  "split_slash s = takeWhile (\<lambda>c. c \<noteq> CHR ''/'') s # path_segments (dropWhile (\<lambda>c. c \<noteq> CHR ''/'') s)"
  by (induction s) (auto simp: path_segments_def)

lemma etp_loop_segments:
  "current \<le> index \<Longrightarrow> end_pos \<le> length target \<Longrightarrow>
   etp_loop target index current end_pos =
     (let segs = path_segments (drop end_pos target) in
      if index - current < length segs then segs ! (index - current) else [])"
proof (induction target index current end_pos rule: etp_loop.induct)
  case (1 target index current e)
  let ?P = "\<lambda>c. c \<noteq> CHR ''/''"
  show ?case
  proof (cases "e < length target")
    case False
    with "1.prems" show ?thesis
      by (subst etp_loop.simps) (simp add: path_segments_def)
  next
    case True
    define start where "start = (if target ! e = CHR ''/'' then e + 1 else e)"
    define s where "s = drop start target"
    define fin where "fin = (case find_from CHR ''/'' target start of None \<Rightarrow> length target | Some i \<Rightarrow> i)"
    have start: "start \<le> length target" using True by (simp add: start_def)
    have ds: "drop e target = target ! e # drop (Suc e) target" using True by (simp add: Cons_nth_drop_Suc)
    then have segs: "path_segments (drop e target) = split_slash s"
      by (simp add: path_segments_def s_def start_def)
    have fin: "fin = start + length (takeWhile ?P s)"
    proof (cases "CHR ''/'' \<in> set s")
      case True
      with find_from_alt [OF start] show ?thesis by (simp add: fin_def s_def)
    next
      case False
      then have tw: "takeWhile ?P s = s" by (subst takeWhile_eq_all_conv) metis
      from find_from_alt [OF start] False have "find_from CHR ''/'' target start = None"
        by (simp add: s_def)
      then show ?thesis unfolding tw using start by (simp add: fin_def s_def)
    qed
    have fin_le: "fin \<le> length target"
      using fin length_takeWhile_le [of ?P s] start by (simp add: s_def)
    have unf: "etp_loop target index current e =
        (if current = index then take (fin - start) s else etp_loop target index (current + 1) fin)"
      using True "1.prems"(1)
      by (subst etp_loop.simps) (simp add: Let_def start_def [symmetric] fin_def [symmetric] s_def [symmetric] del: One_nat_def)
    have tk: "take (fin - start) s = takeWhile ?P s" by (simp add: fin takeWhile_eq_take [symmetric])
    have dr: "drop fin target = dropWhile ?P s"
      by (simp add: fin s_def dropWhile_eq_drop add.commute)
    show ?thesis
    proof (cases "current = index")
      case True
      show ?thesis unfolding unf segs using True by (simp add: tk split_slash_unfold [of s])
    next
      case False
      have "etp_loop target index (current + 1) fin =
        (let segs = path_segments (drop fin target) in
          if index - (current + 1) < length segs then segs ! (index - (current + 1)) else [])"
        using "1.IH" [of e start fin] True False "1.prems"(1) fin_le
        by (simp add: start_def fin_def)
      moreover obtain k where "index - current = Suc k" "index - (current + 1) = k"
        using False "1.prems"(1) by (metis Suc_diff_Suc Suc_eq_plus1 le_neq_implies_less)
      ultimately show ?thesis
        using False by (simp add: unf segs split_slash_unfold [of s] dr)
    qed
  qed
qed


lemma split_slash_append:
  "CHR ''/'' \<notin> set a \<Longrightarrow> split_slash (a @ CHR ''/'' # b) = a # split_slash b"
  by (induction a) auto

lemma split_slash_single: "CHR ''/'' \<notin> set a \<Longrightarrow> split_slash a = [a]"
  by (induction a) auto

section \<open>Media types\<close>

definition extension :: "string \<Rightarrow> string" where
  "extension path = (case rfind CHR ''.'' path of None \<Rightarrow> [] | Some pos \<Rightarrow> drop pos path)"

definition mime_type :: "string \<Rightarrow> string" where
  "mime_type path =
     (let ext = extension path in
      if iequals ext ''.htm'' then ''text/html''
      else if iequals ext ''.html'' then ''text/html''
      else if iequals ext ''.php'' then ''text/html''
      else if iequals ext ''.css'' then ''text/css''
      else if iequals ext ''.txt'' then ''text/plain''
      else if iequals ext ''.js'' then ''application/javascript''
      else if iequals ext ''.json'' then ''application/json''
      else if iequals ext ''.xml'' then ''application/xml''
      else if iequals ext ''.swf'' then ''application/x-shockwave-flash''
      else if iequals ext ''.flv'' then ''video/x-flv''
      else if iequals ext ''.png'' then ''image/png''
      else if iequals ext ''.jpe'' then ''image/jpeg''
      else if iequals ext ''.jpeg'' then ''image/jpeg''
      else if iequals ext ''.jpg'' then ''image/jpeg''
      else if iequals ext ''.gif'' then ''image/gif''
      else if iequals ext ''.bmp'' then ''image/bmp''
      else if iequals ext ''.ico'' then ''image/vnd.microsoft.icon''
      else if iequals ext ''.tiff'' then ''image/tiff''
      else if iequals ext ''.tif'' then ''image/tiff''
      else if iequals ext ''.svg'' then ''image/svg+xml''
      else if iequals ext ''.svgz'' then ''image/svg+xml''
      else ''application/octet-stream'')"

text \<open>The specification: one lookup in a table of extensions.\<close>

definition mime_table :: "(string \<times> string) list" where
  "mime_table =
     [(''.htm'', ''text/html''), (''.html'', ''text/html''), (''.php'', ''text/html''),
      (''.css'', ''text/css''), (''.txt'', ''text/plain''), (''.js'', ''application/javascript''),
      (''.json'', ''application/json''), (''.xml'', ''application/xml''),
      (''.swf'', ''application/x-shockwave-flash''), (''.flv'', ''video/x-flv''),
      (''.png'', ''image/png''), (''.jpe'', ''image/jpeg''), (''.jpeg'', ''image/jpeg''),
      (''.jpg'', ''image/jpeg''), (''.gif'', ''image/gif''), (''.bmp'', ''image/bmp''),
      (''.ico'', ''image/vnd.microsoft.icon''), (''.tiff'', ''image/tiff''), (''.tif'', ''image/tiff''),
      (''.svg'', ''image/svg+xml''), (''.svgz'', ''image/svg+xml'')]"

definition mime_spec :: "string \<Rightarrow> string" where
  "mime_spec path =
     (case map_of mime_table (map ascii_tolower (extension path)) of
        None \<Rightarrow> ''application/octet-stream'' | Some t \<Rightarrow> t)"

lemma mime_exts_lower:
  "map ascii_tolower ''.htm'' = ''.htm''"
  "map ascii_tolower ''.html'' = ''.html''"
  "map ascii_tolower ''.php'' = ''.php''"
  "map ascii_tolower ''.css'' = ''.css''"
  "map ascii_tolower ''.txt'' = ''.txt''"
  "map ascii_tolower ''.js'' = ''.js''"
  "map ascii_tolower ''.json'' = ''.json''"
  "map ascii_tolower ''.xml'' = ''.xml''"
  "map ascii_tolower ''.swf'' = ''.swf''"
  "map ascii_tolower ''.flv'' = ''.flv''"
  "map ascii_tolower ''.png'' = ''.png''"
  "map ascii_tolower ''.jpe'' = ''.jpe''"
  "map ascii_tolower ''.jpeg'' = ''.jpeg''"
  "map ascii_tolower ''.jpg'' = ''.jpg''"
  "map ascii_tolower ''.gif'' = ''.gif''"
  "map ascii_tolower ''.bmp'' = ''.bmp''"
  "map ascii_tolower ''.ico'' = ''.ico''"
  "map ascii_tolower ''.tiff'' = ''.tiff''"
  "map ascii_tolower ''.tif'' = ''.tif''"
  "map ascii_tolower ''.svg'' = ''.svg''"
  "map ascii_tolower ''.svgz'' = ''.svgz''"
  by code_simp+

lemma mime_lookup_simps:
  "(case map_of ((a, b) # ps) x of None \<Rightarrow> d | Some t \<Rightarrow> t) =
     (if x = a then b else (case map_of ps x of None \<Rightarrow> d | Some t \<Rightarrow> t))"
  "(case map_of [] x of None \<Rightarrow> d | Some t \<Rightarrow> t) = d"
  by simp_all

lemma mime_type_spec: "mime_type path = mime_spec path"
  by (simp only: mime_type_def mime_spec_def Let_def iequals_def mime_exts_lower mime_table_def
      mime_lookup_simps)

lemma ascii_tolower_idem [simp]: "ascii_tolower (ascii_tolower c) = ascii_tolower c"
proof (cases "65 \<le> (of_char c :: nat) \<and> (of_char c :: nat) \<le> 90")
  case True
  then have "of_char (char_of (of_char c + 32 :: nat) :: char) = (of_char c + 32 :: nat)"
    by (simp add: of_char_of take_bit_nat_eq_self)
  with True show ?thesis by (simp add: ascii_tolower_def Let_def)
next
  case False
  then show ?thesis by (auto simp: ascii_tolower_def Let_def)
qed

lemma extension_lower: "map ascii_tolower (extension (map ascii_tolower p)) = map ascii_tolower (extension p)"
proof -
  have dot: "ascii_tolower c = CHR ''.'' \<longleftrightarrow> c = CHR ''.''" for c
  proof
    assume a: "ascii_tolower c = CHR ''.''"
    show "c = CHR ''.''"
    proof (cases "65 \<le> (of_char c :: nat) \<and> (of_char c :: nat) \<le> 90")
      case True
      then have "of_char (ascii_tolower c) = (of_char c + 32 :: nat)"
        by (simp add: ascii_tolower_def of_char_of take_bit_nat_eq_self)
      with a have "(of_char c + 32 :: nat) = 46" by simp
      with True show ?thesis by simp
    next
      case False
      with a show ?thesis by (auto simp: ascii_tolower_def Let_def)
    qed
  qed (simp add: ascii_tolower_def)
  have tw: "length (takeWhile (\<lambda>x. x \<noteq> CHR ''.'') (map ascii_tolower xs)) = length (takeWhile (\<lambda>x. x \<noteq> CHR ''.'') xs)" for xs
    by (simp add: takeWhile_map comp_def dot)
  show ?thesis
    by (simp add: extension_def rfind_def Let_def rev_map tw drop_map)
qed

section \<open>Ids of private rooms\<close>

text \<open>\<open>hash\<close> is \<open>crypto_generichash\<close> of libsodium, asked for 20 bytes.\<close>

definition private_room_key :: "string \<Rightarrow> string \<Rightarrow> string" where
  "private_room_key u1 u2 =
     (let (a, b) = (if u1 > u2 then (u2, u1) else (u1, u2)) in a @ ''::'' @ b)"

definition generate_private_room_uuid :: "(string \<Rightarrow> u8 list) \<Rightarrow> string \<Rightarrow> string \<Rightarrow> string" where
  "generate_private_room_uuid hash u1 u2 = ''pr-'' @ bytes_to_hex (hash (private_room_key u1 u2))"

text \<open>
  A random identifier, which no handler asks for: \<open>random_generator\<close> is the Boost generator kept from
  call to call and \<open>uuid_string\<close> its printing.
\<close>

definition generate_uuid :: "('g \<Rightarrow> 'i \<times> 'g) \<Rightarrow> ('i \<Rightarrow> string) \<Rightarrow> ('g, string) prog" where
  "generate_uuid random_generator uuid_string g = (case random_generator g of (i, g') \<Rightarrow> (Ret (uuid_string i), g'))"

fun drawn :: "nat \<Rightarrow> ('g \<Rightarrow> 'i \<times> 'g) \<Rightarrow> 'g \<Rightarrow> 'i list" where
  "drawn 0 random_generator g = []"
| "drawn (Suc k) random_generator g = (case random_generator g of (i, g') \<Rightarrow> i # drawn k random_generator g')"

text \<open>Successive identifiers are as distinct as what the generator drew.\<close>

lemma generate_uuid_distinct:
  assumes "repeat_prog k (generate_uuid random_generator uuid_string) g = (Ret xs, g')" "inj uuid_string"
  shows "distinct xs \<longleftrightarrow> distinct (drawn k random_generator g)"
proof -
  have "xs = map uuid_string (drawn k random_generator g)" using assms(1)
  proof (induction k arbitrary: g xs)
    case (Suc k)
    obtain i h where "random_generator g = (i, h)" by (cases "random_generator g")
    with Suc show ?case by (auto simp: repeat_prog_Suc_eq generate_uuid_def simp del: repeat_prog.simps)
  qed (simp add: ret_def)
  with assms(2) show ?thesis by (auto simp: distinct_map inj_on_def)
qed

lemma private_room_key_comm: "private_room_key u1 u2 = private_room_key u2 u1"
  by (auto simp: private_room_key_def Let_def)

lemma uuid_eq_iff:
  "generate_private_room_uuid hash u1 u2 = generate_private_room_uuid hash v1 v2 \<longleftrightarrow>
     hash (private_room_key u1 u2) = hash (private_room_key v1 v2)"
  by (simp add: generate_private_room_uuid_def bytes_to_hex_inj)

lemma colon_key_eq:
  assumes "CHR '':'' \<notin> set a" "CHR '':'' \<notin> set c"
  shows "a @ CHR '':'' # CHR '':'' # b = c @ CHR '':'' # CHR '':'' # d \<longleftrightarrow> a = c \<and> b = d"
proof
  assume eq: "a @ CHR '':'' # CHR '':'' # b = c @ CHR '':'' # CHR '':'' # d"
  have "takeWhile (\<lambda>x. x \<noteq> CHR '':'') (a @ CHR '':'' # CHR '':'' # b) = a" if "CHR '':'' \<notin> set a" for a b
    using that by (intro takeWhile_append_stop) auto
  with assms eq have "a = c" by metis
  with eq show "a = c \<and> b = d" by simp
qed simp

lemma private_room_key_eq_iff:
  assumes "\<forall>u \<in> {u1, u2, v1, v2}. CHR '':'' \<notin> set u"
  shows "private_room_key u1 u2 = private_room_key v1 v2 \<longleftrightarrow> {u1, u2} = {v1, v2}"
  using assms
  by (auto simp: private_room_key_def Let_def doubleton_eq_iff colon_key_eq)

lemma extract_target_param_nth:
  "extract_target_param target index =
     (if index < length (path_segments target) then path_segments target ! index else [])"
  unfolding extract_target_param_def by (subst etp_loop_segments) (simp_all add: Let_def)

lemma room_target_segments:
  assumes "CHR ''/'' \<notin> set i" "CHR ''/'' \<notin> set verb"
  shows "path_segments (''/api/rooms/'' @ i @ ''/'' @ verb) = [''api'', ''rooms'', i, verb]"
  using assms by (simp add: path_segments_def split_slash_append split_slash_single)

lemma room_target_segments_short:
  "CHR ''/'' \<notin> set i \<Longrightarrow> path_segments (''/api/rooms/'' @ i) = [''api'', ''rooms'', i]"
  by (simp add: path_segments_def split_slash_append split_slash_single)

lemma to_string_no_slash: "CHR ''/'' \<notin> set (to_string w)"
  using dec_digits_digits [of "unat w"] by (auto simp: to_string_def is_digit_def)

section \<open>Properties\<close>

text \<open>C30: \<open>extract_target_param\<close> returns the segment with the given index of the target split at its
  slashes (a leading slash opens segment 0), and the empty view when there are fewer segments.\<close>

theorem extract_target_param_spec:
  "extract_target_param target index =
     (if index < length (path_segments target) then path_segments target ! index else [])"
  by (rule extract_target_param_nth)

text \<open>The route of a room and its parameters: for the target \<open>/api/rooms/<id>/<verb>\<close> built
  from any room id, parameter 2 parses back to that id and parameter 3 is the verb.\<close>

theorem room_route_roundtrip:
  assumes "CHR ''/'' \<notin> set verb"
  shows "stoull (extract_target_param (''/api/rooms/'' @ to_string room_id @ ''/'' @ verb) 2) = Ret room_id
    \<and> extract_target_param (''/api/rooms/'' @ to_string room_id @ ''/'' @ verb) 3 = verb"
  using room_target_segments [OF to_string_no_slash assms, of room_id]
  by (simp add: extract_target_param_nth)

theorem room_route_roundtrip_witness:
  "stoull (extract_target_param (''/api/rooms/'' @ to_string 42 @ ''/'' @ ''member'') 2) = Ret 42
    \<and> extract_target_param (''/api/rooms/'' @ to_string 42 @ ''/'' @ ''member'') 3 = ''member''"
proof -
  have "CHR ''/'' \<notin> set ''member''" by simp
  then show ?thesis by (rule room_route_roundtrip)
qed

text \<open>\<open>mime_type\<close> is the lookup of the lower-cased extension (what follows the last dot, the
  dot included) in the table of known types, \<open>application/octet-stream\<close> for every other one; the
  case of the path does not matter.\<close>

theorem mime_type_correct:
  "mime_type path = mime_spec path \<and> mime_type (map ascii_tolower path) = mime_type path"
  by (simp add: mime_type_spec mime_spec_def extension_lower)

text \<open>The id of a private room identifies the unordered pair of its users: for names without a
  colon, and a hash that does not collide on the two keys, two pairs get the same id exactly when
  they are the same two users, in whichever order.\<close>

theorem private_room_uuid_identity:
  assumes "\<forall>u \<in> {u1, u2, v1, v2}. CHR '':'' \<notin> set u"
    and "hash (private_room_key u1 u2) = hash (private_room_key v1 v2) \<Longrightarrow>
           private_room_key u1 u2 = private_room_key v1 v2"
  shows "generate_private_room_uuid hash u1 u2 = generate_private_room_uuid hash v1 v2 \<longleftrightarrow> {u1, u2} = {v1, v2}"
  using assms(2) private_room_key_eq_iff [OF assms(1)] by (auto simp: uuid_eq_iff)

definition demo_hash :: "string \<Rightarrow> u8 list" where
  "demo_hash s = map of_char (take 20 (s @ replicate 20 CHR ''.''))"

theorem private_room_uuid_identity_witness:
  "generate_private_room_uuid demo_hash ''bob'' ''amy'' = generate_private_room_uuid demo_hash ''amy'' ''bob'' \<longleftrightarrow>
     {''bob'', ''amy''} = {''amy'', ''bob''}"
  by (rule private_room_uuid_identity) (simp_all add: private_room_key_comm [of "''bob''"])

text \<open>The separator is not escaped: two different pairs of names that hold a double colon get the
  same room id under every hash.\<close>

theorem private_room_uuid_collision:
  "generate_private_room_uuid hash ''a'' ''b::c'' = generate_private_room_uuid hash ''a::b'' ''c''"
  by (simp add: uuid_eq_iff private_room_key_def Let_def less_char_def)

end
