(* ===== verification/RequestHandler.thy ===== *)
theory RequestHandler
  imports Auth RequestUtil
begin

text \<open>
  The HTTP API, \<open>src/src/core/request_handler.hpp\<close> and \<open>request_handler.cpp\<close>: every
  handler and their dispatch, over the server state and the parameters of \<open>ServerState\<close>. A
  handler returns a response, throws, has undefined behaviour or blocks; the conditions, early
  returns, SQL texts and messages are the source's. The text of a JSON body is what the
  parameter \<open>env_serialize\<close> makes of its value; logging is left out.
\<close>

section \<open>Requests and responses\<close>

datatype verb = Get | Post_verb | Delete | Other_verb string

record http_request =
  rq_method :: verb
  rq_target :: string
  rq_version :: nat
  rq_keep_alive :: bool
  rq_authorization :: "string option"
  rq_body :: string

text \<open>The body as it goes out; \<open>prepare_payload\<close> sets the length of a text.\<close>

datatype body = Text_body string | File_body string nat

record response =
  rs_status :: nat
  rs_version :: nat
  rs_server :: string
  rs_content_type :: string
  rs_content_length :: "string option"
  rs_keep_alive :: bool
  rs_body :: body

record req_context =
  cx_version :: nat
  cx_keep_alive :: bool
  cx_method :: verb
  cx_target :: string
  cx_jv_opt :: "json option"
  cx_user_claims_opt :: "user_claims option"

text \<open>\<open>req[http::field::authorization]\<close>: the empty text when the field is absent.\<close>

definition auth_field :: "http_request \<Rightarrow> string" where
  "auth_field req = (case rq_authorization req of None \<Rightarrow> [] | Some v \<Rightarrow> v)"

definition create_json_response :: "'w env \<Rightarrow> nat \<Rightarrow> nat \<Rightarrow> bool \<Rightarrow> json \<Rightarrow> response" where
  "create_json_response E status version keep_alive jv =
     \<lparr>rs_status = status, rs_version = version, rs_server = env_beast_version E,
      rs_content_type = ''application/json'',
      rs_content_length = Some (to_string (of_nat (length (env_serialize E jv)))),
      rs_keep_alive = keep_alive, rs_body = Text_body (env_serialize E jv)\<rparr>"

definition error_body :: "status_code \<Rightarrow> string \<Rightarrow> json" where
  "error_body code msg =
     JObj [(''code'', JInt (status_int code)), (''message'', JStr (''Bad Request'' @ msg)), (''data'', JNull)]"

definition bad_request :: "'w env \<Rightarrow> http_request \<Rightarrow> string \<Rightarrow> response" where
  "bad_request E req msg =
     create_json_response E 400 (rq_version req) (rq_keep_alive req) (error_body BadRequest msg)"

text \<open>The two overloads of \<open>error_resp\<close>: only the second knows \<open>NotFound\<close>.\<close>

definition error_resp :: "'w env \<Rightarrow> http_request \<Rightarrow> status_code \<Rightarrow> string \<Rightarrow> response" where
  "error_resp E req code msg =
     create_json_response E
       (case code of BadRequest \<Rightarrow> 400 | InternalServerError \<Rightarrow> 500 | Forbidden \<Rightarrow> 403 | _ \<Rightarrow> 500)
       (rq_version req) (rq_keep_alive req) (error_body code msg)"

definition error_resp_ctx :: "'w env \<Rightarrow> req_context \<Rightarrow> status_code \<Rightarrow> string \<Rightarrow> response" where
  "error_resp_ctx E ctx code msg =
     create_json_response E
       (case code of BadRequest \<Rightarrow> 400 | InternalServerError \<Rightarrow> 500 | Forbidden \<Rightarrow> 403 | NotFound \<Rightarrow> 404 | _ \<Rightarrow> 500)
       (cx_version ctx) (cx_keep_alive ctx) (error_body code msg)"

definition ok_response :: "'w env \<Rightarrow> http_request \<Rightarrow> json \<Rightarrow> response" where
  "ok_response E req jv = create_json_response E 200 (rq_version req) (rq_keep_alive req) jv"

definition parse_body :: "'w env \<Rightarrow> http_request \<Rightarrow> json outcome" where
  "parse_body E req = of_sum (env_parse E (rq_body req))"

section \<open>Rooms\<close>

definition create_g_room_body :: "'w env \<Rightarrow> http_request \<Rightarrow> ('w sys, response) prog" where
  "create_g_room_body E req =
     andthen (lift (parse_body E req)) (\<lambda>jv.
     andthen (lift (to_create_g_room_req jv)) (\<lambda>creq.
     andthen (begin_transaction (env_mysql E)) (\<lambda>_.
     andthen (sf_next E) (\<lambda>room_id.
     andthen (lift (extract_user_claims E (auth_field req))) (\<lambda>user_claims.
     andthen (update E ''INSERT INTO rooms (id, name, type, owner_id) VALUES (?, ?, ?, ?)''
       [P_u64 room_id, P_str (cgr_name creq), P_int (room_type_int GROUP), P_u64 (uc_id user_claims)]) (\<lambda>updated_row1.
     if updated_row1 \<noteq> 1 then raise (RuntimeError ''Failed to create group room'')
     else
     andthen (update E ''INSERT INTO room_members (room_id, user_id, role) VALUES (?, ?, ?)''
       [P_u64 room_id, P_u64 (uc_id user_claims), P_int (role_int OWNER)]) (\<lambda>updated_row2.
     if updated_row2 \<noteq> 1 then raise (RuntimeError ''Failed to add owner to group room'')
     else ret (ok_response E req (api_response_json create_g_room_resp_json
       \<lparr>ar_code = Success, ar_message = ''Room created success, creator will be the owner.'',
        ar_data = \<lparr>cgresp_room_id = room_id\<rparr>\<rparr>)))))))))"

definition create_g_room :: "'w env \<Rightarrow> http_request \<Rightarrow> ('w sys, response) prog" where
  "create_g_room E req =
     (if rq_method req \<noteq> Post_verb then ret (bad_request E req [])
      else conn_scope E (try_catch (create_g_room_body E req)
        (\<lambda>e. andthen (rollback (env_mysql E)) (\<lambda>_. ret (bad_request E req '' Server Error'')))))"

definition create_p_room_body :: "'w env \<Rightarrow> http_request \<Rightarrow> ('w sys, response) prog" where
  "create_p_room_body E req =
     andthen (lift (parse_body E req)) (\<lambda>jv.
     andthen (lift (to_create_p_room_req jv)) (\<lambda>creq.
     andthen (begin_transaction (env_mysql E)) (\<lambda>_.
     andthen (sf_next E) (\<lambda>room_id.
     andthen (lift (extract_user_claims E (auth_field req))) (\<lambda>user_claims.
     andthen (update E ''INSERT INTO rooms (id, type) VALUES (?, ?)''
       [P_u64 room_id, P_int (room_type_int PRIVATE)]) (\<lambda>updated_row1.
     if updated_row1 \<noteq> 1 then raise (RuntimeError ''Failed to create group room'')
     else
     andthen (update E ''INSERT INTO room_members (room_id, user_id, role)VALUES (?, ?, ?), (?, ?, ?)''
       [P_u64 room_id, P_u64 (uc_id user_claims), P_int (role_int PRIVATE_MEMBER),
        P_u64 room_id, P_u64 (cpr_other_id creq), P_int (role_int PRIVATE_MEMBER)]) (\<lambda>updated_row2.
     if updated_row2 \<noteq> 2 then raise (RuntimeError ''Failed to add owner to group room'')
     else
     andthen (commit (env_mysql E)) (\<lambda>_.
       ret (ok_response E req (api_response_json create_p_room_resp_json
       \<lparr>ar_code = Success, ar_message = ''Private room created success.'',
        ar_data = \<lparr>cpresp_room_id = room_id\<rparr>\<rparr>))))))))))"

definition create_p_room :: "'w env \<Rightarrow> http_request \<Rightarrow> ('w sys, response) prog" where
  "create_p_room E req =
     (if rq_method req \<noteq> Post_verb then ret (bad_request E req [])
      else conn_scope E (try_catch (create_p_room_body E req)
        (\<lambda>e. andthen (rollback (env_mysql E)) (\<lambda>_. ret (bad_request E req '' Server Error'')))))"

definition delete_room_body :: "'w env \<Rightarrow> http_request \<Rightarrow> u64 \<Rightarrow> ('w sys, response) prog" where
  "delete_room_body E req room_id =
     andthen (lift (extract_user_claims E (auth_field req))) (\<lambda>user_claims.
     andthen (query E ''SELECT role FROM room_members WHERE room_id = ? AND user_id = ?''
       [P_u64 room_id, P_u64 (uc_id user_claims)]) (\<lambda>role_set.
     case role_set of
       [] \<Rightarrow> ret (error_resp E req BadRequest '' You are not a member in the group'')
     | row # _ \<Rightarrow>
         andthen (lift (of_sum (row_int row ''role''))) (\<lambda>role.
         if role \<noteq> role_int OWNER then ret (error_resp E req Forbidden '' Permission denied'')
         else
         andthen (update E ''DELETE FROM room_members WHERE room_id = ?'' [P_u64 room_id]) (\<lambda>deleted_member.
         if deleted_member = 0
         then raise (RuntimeError (''There is a room '' @ [CHR 0x22] @ to_string room_id @ [CHR 0x22] @ '' which has no member''))
         else
         andthen (update E ''DELETE FROM rooms WHERE id = ?'' [P_u64 room_id]) (\<lambda>deleted_room.
         if deleted_room = 0 then raise (RuntimeError ''Failed to delete room'')
         else
         andthen (commit (env_mysql E)) (\<lambda>_.
           ret (ok_response E req (api_response_json null_json
             \<lparr>ar_code = Success, ar_message = ''Room deleted successfully'', ar_data = ()\<rparr>))))))))"

definition delete_room :: "'w env \<Rightarrow> http_request \<Rightarrow> u64 \<Rightarrow> ('w sys, response) prog" where
  "delete_room E req room_id =
     conn_scope E (andthen (begin_transaction (env_mysql E)) (\<lambda>_.
       try_catch (delete_room_body E req room_id)
         (\<lambda>e. andthen (rollback (env_mysql E)) (\<lambda>_. ret (error_resp E req BadRequest '' Server error'')))))"

definition invite_member :: "'w env \<Rightarrow> http_request \<Rightarrow> u64 \<Rightarrow> ('w sys, response) prog" where
  "invite_member E req room_id =
     (if rq_method req \<noteq> Post_verb then ret (bad_request E req '' Method Not Allowed'')
      else
      andthen (lift (obind (parse_body E req) to_g_room_invt_req)) (\<lambda>invt_req.
      conn_scope E (
        andthen (lift (extract_user_claims E (auth_field req))) (\<lambda>user_claims.
        andthen (query E ''SELECT type FROM rooms WHERE id = ?'' [P_u64 room_id]) (\<lambda>result_set.
        case result_set of
          [] \<Rightarrow> ret (error_resp E req BadRequest '' Room not found'')
        | row # _ \<Rightarrow>
            andthen (lift (of_sum (row_int row ''type''))) (\<lambda>ty.
            if ty \<noteq> room_type_int GROUP then ret (error_resp E req BadRequest '' Illegal request'')
            else
            andthen (update E ''INSERT INTO room_members (room_id, user_id, role) VALUE (?, ?, ?)''
              [P_u64 room_id, P_u64 (gri_invitee_id invt_req), P_int (role_int MEMBER)]) (\<lambda>update_row.
            if update_row \<noteq> 1 then ret (bad_request E req '' Invite failed'')
            else ret (ok_response E req (api_response_json null_json
              \<lparr>ar_code = Success, ar_message = ''Invitee successfully added to the group'', ar_data = ()\<rparr>)))))))))"

text \<open>A room without a verb and a method other than DELETE: control leaves the function.\<close>

definition handle_chat_room :: "'w env \<Rightarrow> http_request \<Rightarrow> ('w sys, response) prog" where
  "handle_chat_room E req =
     try_catch
       (andthen (lift (stoull (extract_target_param (rq_target req) 2))) (\<lambda>room_id.
        let room_verb = extract_target_param (rq_target req) 3
        in if room_verb = [] then
             (if rq_method req = Delete then delete_room E req room_id else undef)
           else if room_verb = ''member'' then invite_member E req room_id
           else ret (bad_request E req '' target not found'')))
       (\<lambda>e. ret (bad_request E req '' Server Error''))"

section \<open>Users\<close>

text \<open>The row of the user, read column by column.\<close>

definition user_of_row :: "string \<Rightarrow> row \<Rightarrow> user outcome" where
  "user_of_row username row =
     obind (of_sum (row_u64 row ''id'')) (\<lambda>i.
     obind (of_sum (row_str row ''nickname'')) (\<lambda>nickname.
     obind (of_sum (row_str row ''email'')) (\<lambda>email.
     obind (of_sum (row_str row ''avatar_url'')) (\<lambda>avatar_url.
     obind (of_sum (row_str row ''created_at'')) (\<lambda>created_at.
       Ret \<lparr>usr_id = i, usr_username = username, usr_nickname = nickname, usr_email = email,
            usr_avatar_url = avatar_url, usr_created_at = created_at\<rparr>)))))"

text \<open>The part of \<open>handle_login\<close> after the body was read, in the scope of its connection.\<close>

definition login_body :: "'w env \<Rightarrow> http_request \<Rightarrow> login_request \<Rightarrow> ('w sys, response) prog" where
  "login_body E req login_request =
     andthen (query E (''SELECT id, password_hash, nickname, email, avatar_url, created_at FROM '' @
         ''users WHERE username = ?'') [P_str (lreq_username login_request)]) (\<lambda>result_set.
     case result_set of
       [] \<Rightarrow> ret (create_json_response E 404 (rq_version req) (rq_keep_alive req)
         (api_response_json null_json
           \<lparr>ar_code = UserNotFound, ar_message = ''User not found'', ar_data = ()\<rparr>))
     | row # _ \<Rightarrow>
         andthen (lift (of_sum (row_str row ''password_hash''))) (\<lambda>hasd_pwd.
         if \<not> verify_password E (lreq_password login_request) hasd_pwd
         then ret (create_json_response E 401 (rq_version req) (rq_keep_alive req)
           (api_response_json null_json
             \<lparr>ar_code = IncorrectPwd, ar_message = ''Password incorrect'', ar_data = ()\<rparr>))
         else
         andthen (lift (user_of_row (lreq_username login_request) row)) (\<lambda>user.
         andthen (generate_login_token E (lreq_username login_request) (usr_id user)) (\<lambda>tok.
           ret (ok_response E req (api_response_json login_resp_json
             \<lparr>ar_code = Success, ar_message = ''Login successful'',
              ar_data = \<lparr>lresp_token = tok, lresp_user = user\<rparr>\<rparr>))))))"

definition handle_login :: "'w env \<Rightarrow> http_request \<Rightarrow> ('w sys, response) prog" where
  "handle_login E req =
     (if rq_method req \<noteq> Post_verb then ret (bad_request E req ''Bad Request'')
      else case env_parse E (rq_body req) of
        Inl ec \<Rightarrow> ret (bad_request E req ''Invalid JSON format'')
      | Inr parsed_json \<Rightarrow>
      andthen (lift (to_login_request parsed_json)) (\<lambda>login_request.
      conn_scope E (login_body E req login_request)))"

definition register_body :: "'w env \<Rightarrow> http_request \<Rightarrow> ('w sys, response) prog" where
  "register_body E req =
     (case env_parse E (rq_body req) of
        Inl ec \<Rightarrow> ret (bad_request E req ''Invalid JSON format'')
      | Inr jv \<Rightarrow>
      andthen (lift (to_register_request jv)) (\<lambda>register_request.
      conn_scope E (
        andthen (hash_password E (rreq_password register_request)) (\<lambda>hashed_pwd.
        andthen (sf_next E) (\<lambda>i.
        andthen (update E (''INSERT INTO users (id, username, password_hash, email, nickname) '' @
            ''VALUES (?, ?, ?, ?, ?)'')
          [P_u64 i, P_str (rreq_username register_request), P_str hashed_pwd,
           P_str (rreq_email register_request), P_str (rreq_nickname register_request)]) (\<lambda>updated_row.
        if updated_row = 1
        then ret (ok_response E req (api_response_json null_json
          \<lparr>ar_code = Success, ar_message = ''Registration successful'', ar_data = ()\<rparr>))
        else if updated_row = 0
        then ret (create_json_response E 400 (rq_version req) (rq_keep_alive req) (api_response_json null_json
          \<lparr>ar_code = RegFailed, ar_message = ''Register Failed'', ar_data = ()\<rparr>))
        else ret (bad_request E req ''Server Error'')))))))"

definition handle_register :: "'w env \<Rightarrow> http_request \<Rightarrow> ('w sys, response) prog" where
  "handle_register E req =
     (if rq_method req \<noteq> Post_verb then ret (bad_request E req [])
      else try_catch (register_body E req) (\<lambda>e. ret (bad_request E req ''Server Error'')))"

text \<open>
  \<open>query_rooms\<close>: \<open>ctx.user_claims_opt->id\<close> on an empty optional is undefined, and so is
  the end of the \<open>try\<close> block, which returns nothing.
\<close>

definition query_rooms :: "'w env \<Rightarrow> req_context \<Rightarrow> ('w sys, response) prog" where
  "query_rooms E ctx =
     try_catch
       (if cx_method ctx \<noteq> Get then ret (error_resp_ctx E ctx BadRequest '' Method Not Allowed'')
        else
        andthen (conn_scope E (case cx_user_claims_opt ctx of
            None \<Rightarrow> undef
          | Some claims \<Rightarrow> query E ''SELECT room_id FROM room_members WHERE user_id = ?'' [P_u64 (uc_id claims)]))
          (\<lambda>room_ids. undef))
       (\<lambda>e. ret (error_resp_ctx E ctx InternalServerError '' Server Error''))"

section \<open>Assets\<close>

text \<open>
  \<open>remove_prefix(8)\<close> of a shorter view is undefined; the request reaches the function when
  its target starts with the seven characters of \<open>/assets\<close>.
\<close>

definition handle_assets :: "'w env \<Rightarrow> req_context \<Rightarrow> ('w sys, response) prog" where
  "handle_assets E ctx =
     try_catch
       (if cx_method ctx \<noteq> Get then ret (error_resp_ctx E ctx BadRequest '' Method Not Allowed'')
        else if length (cx_target ctx) < length ''/assets/'' then undef
        else
        let asset_path = drop (length ''/assets/'') (cx_target ctx)
        in if asset_path = [] \<or> contains_sub asset_path ''..''
           then ret (error_resp_ctx E ctx BadRequest '' Invalid asset path'')
           else
           let utf8_path_str = sv_doc_root (env_server E) @ asset_path;
               full_path = path_append (sv_doc_root (env_server E)) asset_path
           in andthen (outside (env_open E full_path)) (\<lambda>file.
              case file of
                NoSuchFile \<Rightarrow> ret (error_resp_ctx E ctx NotFound '' Asset not found'')
              | OpenFailed msg \<Rightarrow> raise (RuntimeError (''Failed to open asset file: '' @ msg))
              | Opened file_size \<Rightarrow>
                  ret \<lparr>rs_status = 200, rs_version = cx_version ctx, rs_server = ''TinyChatServer'',
                    rs_content_type = mime_type utf8_path_str,
                    rs_content_length = Some (to_string (of_nat file_size)),
                    rs_keep_alive = cx_keep_alive ctx, rs_body = File_body full_path file_size\<rparr>))
       (\<lambda>e. ret (error_resp_ctx E ctx InternalServerError '' Server Error''))"

section \<open>Dispatch\<close>

definition make_req_context :: "'w env \<Rightarrow> http_request \<Rightarrow> req_context outcome" where
  "make_req_context E req =
     obind (case rq_authorization req of
              None \<Rightarrow> Ret None
            | Some tok \<Rightarrow> obind (extract_user_claims E tok) (\<lambda>c. Ret (Some c))) (\<lambda>claims.
     obind (if rq_body req = [] then Ret None else obind (parse_body E req) (\<lambda>v. Ret (Some v))) (\<lambda>jv.
       Ret \<lparr>cx_version = rq_version req, cx_keep_alive = rq_keep_alive req, cx_method = rq_method req,
            cx_target = rq_target req, cx_jv_opt = jv, cx_user_claims_opt = claims\<rparr>))"

definition handle_request :: "'w env \<Rightarrow> http_request \<Rightarrow> ('w sys, response) prog" where
  "handle_request E req =
     andthen (lift (make_req_context E req)) (\<lambda>ctx.
       if rq_target req = ''/api/login'' then handle_login E req
       else if rq_target req = ''/api/register'' then handle_register E req
       else if rq_target req = ''/api/group_room'' then create_g_room E req
       else if rq_target req = ''/api/private_room'' then create_p_room E req
       else if starts_with (rq_target req) ''/api/rooms/'' then handle_chat_room E req
       else if rq_target req = ''/users/me/rooms'' then query_rooms E ctx
       else if starts_with (rq_target req) ''/assets'' then handle_assets E ctx
       else ret (bad_request E req '' Not Found''))"

section \<open>Balance\<close>

text \<open>Every handler leaves the connection pool as it found it, however it ends.\<close>

lemma balanced_sum [balanced_intros]:
  "(\<And>x. balanced (f x)) \<Longrightarrow> (\<And>x. balanced (g x)) \<Longrightarrow> balanced (case v of Inl x \<Rightarrow> f x | Inr x \<Rightarrow> g x)"
  by (cases v) auto

lemma balanced_open_result [balanced_intros]:
  "(\<And>x. balanced (f x)) \<Longrightarrow> balanced m \<Longrightarrow> (\<And>x. balanced (g x)) \<Longrightarrow>
     balanced (case v of Opened x \<Rightarrow> f x | NoSuchFile \<Rightarrow> m | OpenFailed x \<Rightarrow> g x)"
  by (cases v) auto

lemma balanced_handlers:
  assumes "healthy (env_mysql E)"
  shows "balanced (create_g_room E req)" "balanced (create_p_room E req)" "balanced (delete_room E req r)"
    "balanced (invite_member E req r)" "balanced (handle_login E req)" "balanced (handle_register E req)"
    "balanced (query_rooms E ctx)" "balanced (handle_assets E ctx)"
proof -
  show "balanced (create_g_room E req)"
    unfolding create_g_room_def create_g_room_body_def by (intro balanced_intros assms)
  show "balanced (create_p_room E req)"
    unfolding create_p_room_def create_p_room_body_def by (intro balanced_intros assms)
  show "balanced (delete_room E req r)"
    unfolding delete_room_def delete_room_body_def by (intro balanced_intros assms)
  show "balanced (invite_member E req r)"
    unfolding invite_member_def by (intro balanced_intros assms)
  show "balanced (handle_login E req)"
    unfolding handle_login_def login_body_def by (intro balanced_intros assms)
  show "balanced (handle_register E req)"
    unfolding handle_register_def register_body_def by (intro balanced_intros assms)
  show "balanced (query_rooms E ctx)"
    unfolding query_rooms_def by (intro balanced_intros assms)
  show "balanced (handle_assets E ctx)"
    unfolding handle_assets_def Let_def by (intro balanced_intros assms)
qed

lemma balanced_handle_request: "healthy (env_mysql E) \<Longrightarrow> balanced (handle_request E req)"
  unfolding handle_request_def handle_chat_room_def Let_def
  by (intro balanced_intros balanced_handlers)

end
