(* ===== verification/WsSessionMgr.thy ===== *)
theory WsSessionMgr
  imports ServerState
begin

text \<open>
  The table of WebSocket sessions, \<open>src/src/core/ws_session_mgr.hpp\<close> and
  \<open>ws_session_mgr.cpp\<close>: user ids to sessions, weakly held. Sending posts to the session's
  strand, the event \<open>Post\<close> of the history; what the session does with it is the subject of
  \<open>WsSession\<close>.
\<close>

section \<open>Operations\<close>

definition add_session :: "u64 \<Rightarrow> nat \<Rightarrow> ('w sys, unit) prog" where
  "add_session session_id session =
     andthen (gets (\<lambda>s. sys_sessions s session_id)) (\<lambda>it.
       case it of
         None \<Rightarrow> modify (\<lambda>s. s\<lparr>sys_sessions := (sys_sessions s)(session_id \<mapsto> session)\<rparr>)
       | Some _ \<Rightarrow> modify (\<lambda>s. s\<lparr>sys_sessions := (sys_sessions s)(session_id := Some session)\<rparr>))"

definition remove_session :: "u64 \<Rightarrow> ('w sys, unit) prog" where
  "remove_session session_id =
     andthen (gets (\<lambda>s. sys_sessions s session_id)) (\<lambda>it.
       if it \<noteq> None then modify (\<lambda>s. s\<lparr>sys_sessions := (sys_sessions s)(session_id := None)\<rparr>)
       else ret ())"

text \<open>The locked lookup: the object when it still exists; an expired entry is erased.\<close>

definition lock_session :: "u64 \<Rightarrow> ('w sys, nat option) prog" where
  "lock_session session_id =
     andthen (gets id) (\<lambda>s.
       case sys_sessions s session_id of
         None \<Rightarrow> ret None
       | Some h \<Rightarrow>
           if sys_alive s h then ret (Some h)
           else andthen (modify (\<lambda>s. s\<lparr>sys_sessions := (sys_sessions s)(session_id := None)\<rparr>)) (\<lambda>_. ret None))"

definition write_to :: "u64 \<Rightarrow> string \<Rightarrow> ('w sys, unit) prog" where
  "write_to session_id msg =
     andthen (lock_session session_id) (\<lambda>session_ptr.
       case session_ptr of
         Some h \<Rightarrow> post h msg
       | None \<Rightarrow> ret ())"

text \<open>\<open>while (res->next()) users_in_group.push_back(res->getUInt64("user_id"))\<close>\<close>

fun collect_u64 :: "string \<Rightarrow> row list \<Rightarrow> u64 list outcome" where
  "collect_u64 label [] = Ret []"
| "collect_u64 label (r # rs) =
     obind (of_sum (row_u64 r label)) (\<lambda>x. obind (collect_u64 label rs) (\<lambda>xs. Ret (x # xs)))"

fun lock_all :: "u64 list \<Rightarrow> ('w sys, nat list) prog" where
  "lock_all [] = ret []"
| "lock_all (u # us) =
     andthen (lock_session u) (\<lambda>p.
     andthen (lock_all us) (\<lambda>hs.
       ret (case p of Some h \<Rightarrow> h # hs | None \<Rightarrow> hs)))"

fun post_all :: "nat list \<Rightarrow> string \<Rightarrow> ('w sys, unit) prog" where
  "post_all [] msg = ret ()"
| "post_all (h # hs) msg = andthen (post h msg) (\<lambda>_. post_all hs msg)"

definition write_to_room :: "'w env \<Rightarrow> u64 \<Rightarrow> string \<Rightarrow> ('w sys, unit) prog" where
  "write_to_room E room_id msg =
     andthen (conn_scope E
       (andthen (query E ''SELECT user_id FROM room_members WHERE room_id = ?'' [P_u64 room_id]) (\<lambda>res.
          lift (collect_u64 ''user_id'' res)))) (\<lambda>users_in_group.
     andthen (lock_all users_in_group) (\<lambda>online_users.
       post_all online_users msg))"

text \<open>\<open>broadcast\<close> only takes the lock.\<close>

definition broadcast :: "string \<Rightarrow> ('w sys, unit) prog" where
  "broadcast msg = ret ()"

section \<open>Lemmas\<close>

text \<open>The session a message for a user reaches.\<close>

definition online :: "'w sys \<Rightarrow> u64 \<Rightarrow> nat option" where
  "online s u = (case sys_sessions s u of Some h \<Rightarrow> if sys_alive s h then Some h else None | None \<Rightarrow> None)"

definition handles :: "'w sys \<Rightarrow> u64 list \<Rightarrow> nat list" where
  "handles s us = List.map_filter (online s) us"

lemma lock_session_run:
  "lock_session u s = (Ret (online s u), s\<lparr>sys_sessions := (sys_sessions s)(u := online s u)\<rparr>)"
  by (cases "sys_sessions s u")
    (auto simp: lock_session_def online_def andthen_def gets_def modify_def ret_def fun_upd_idem)

lemma online_purged [simp]: "online (s\<lparr>sys_sessions := (sys_sessions s)(u := online s u)\<rparr>) v = online s v"
  by (auto simp: online_def split: option.splits)

lemma write_to_run:
  "write_to u msg s = (Ret (), s\<lparr>sys_sessions := (sys_sessions s)(u := online s u),
     db_log := db_log s @ (case online s u of Some h \<Rightarrow> [Post h msg] | None \<Rightarrow> [])\<rparr>)"
  by (cases s) (simp add: write_to_def andthen_def lock_session_run post_def modify_def ret_def
      split: option.split)

definition purge :: "'w sys \<Rightarrow> u64 list \<Rightarrow> 'w sys" where
  "purge s us = s\<lparr>sys_sessions := (\<lambda>u. if u \<in> set us then online s u else sys_sessions s u)\<rparr>"

lemma lock_all_run: "lock_all us s = (Ret (handles s us), purge s us)"
proof (induction us arbitrary: s)
  case Nil
  then show ?case by (simp add: ret_def handles_def purge_def map_filter_simps)
next
  case (Cons u us)
  let ?t = "s\<lparr>sys_sessions := (sys_sessions s)(u := online s u)\<rparr>"
  have o: "online ?t = online s" by (rule ext) simp
  have "(\<lambda>v. if v \<in> set us then online ?t v else sys_sessions ?t v) =
      (\<lambda>v. if v \<in> set (u # us) then online s v else sys_sessions s v)"
    by (rule ext) (simp add: o)
  then have "purge ?t us = purge s (u # us)" by (simp only: purge_def) simp
  with Cons.IH [of ?t] o show ?case
    by (auto simp: andthen_def lock_session_run ret_def handles_def map_filter_simps split: option.split)
qed

lemma post_all_run: "post_all hs msg s = (Ret (), s\<lparr>db_log := db_log s @ map (\<lambda>h. Post h msg) hs\<rparr>)"
  by (induction hs arbitrary: s) (simp_all add: ret_def post_def modify_def andthen_def)

lemma collect_u64_Ret:
  "collect_u64 label rs = Ret us \<longleftrightarrow> map (\<lambda>r. row_u64 r label) rs = map Inr us"
proof (induction rs arbitrary: us)
  case (Cons r rs)
  then show ?case by (cases us) (auto simp: obind_eq_Ret Cons_eq_map_conv)
qed auto

lemma balanced_sessions_update: "balanced (modify (\<lambda>s. s\<lparr>sys_sessions := f s\<rparr>))"
  by (auto simp: balanced_def same_pool_def modify_def)

lemma balanced_sessions [balanced_intros]:
  "balanced (add_session u h)" "balanced (remove_session u)" "balanced (lock_session u)"
  "balanced (write_to u msg)" "balanced (lock_all us)" "balanced (post_all hs msg)" "balanced (broadcast msg)"
proof -
  show "balanced (add_session u h)" "balanced (remove_session u)"
    unfolding add_session_def remove_session_def by (intro balanced_intros balanced_sessions_update)+
  show l: "balanced (lock_session u)" for u
    by (auto simp: balanced_def same_pool_def lock_session_run)
  show "balanced (write_to u msg)" by (auto simp: balanced_def same_pool_def write_to_run)
  show "balanced (lock_all us)" by (auto simp: balanced_def same_pool_def lock_all_run purge_def)
  show "balanced (post_all hs msg)" by (auto simp: balanced_def same_pool_def post_all_run)
  show "balanced (broadcast msg)" by (simp add: broadcast_def balanced_intros)
qed

lemma balanced_write_to_room [balanced_intros]:
  "healthy (env_mysql E) \<Longrightarrow> balanced (write_to_room E room msg)"
  unfolding write_to_room_def by (intro balanced_intros) assumption+

lemma wp_write_to [wp_intros]:
  "(\<And>f evs. evs = (case online s u of Some h \<Rightarrow> [Post h msg] | None \<Rightarrow> []) \<Longrightarrow>
      Q (Ret ()) (s\<lparr>sys_sessions := f, db_log := db_log s @ evs\<rparr>)) \<Longrightarrow> wp (write_to u msg) Q s"
  by (simp add: wp_def write_to_run)

text \<open>The second half of \<open>write_to_room\<close>: what a list of members makes of the table and the history.\<close>

lemma deliver_run:
  "andthen (lock_all us) (\<lambda>hs. post_all hs msg) s =
     (Ret (), (purge s us)\<lparr>db_log := db_log s @ map (\<lambda>h. Post h msg) (handles s us)\<rparr>)"
  by (simp add: andthen_def lock_all_run post_all_run purge_def)

section \<open>Properties\<close>

text \<open>
  C26: \<open>write_to_room\<close> that returns has sent the message once for every row of the member
  list whose user has a live session, in the order of the rows, and to nobody else; whatever
  else it adds to the history is its one query and the closing of its own scope.
\<close>

theorem write_to_room_reaches_members:
  assumes "write_to_room E room msg s = (Ret (), t)"
  shows "\<exists>c rs us evs. map (\<lambda>r. row_u64 r ''user_id'') rs = map Inr us \<and> closing evs \<and>
    db_log t = db_log s @ Query c ''SELECT user_id FROM room_members WHERE room_id = ?'' [(1, P_u64 room)] (Inr rs) #
      evs @ map (\<lambda>h. Post h msg) (handles s us)"
proof -
  let ?sql = "''SELECT user_id FROM room_members WHERE room_id = ?''"
  let ?ok = "\<lambda>us u. \<exists>c rs evs. map (\<lambda>r. row_u64 r ''user_id'') rs = map Inr us \<and> closing evs \<and>
    sys_sessions u = sys_sessions s \<and> sys_alive u = sys_alive s \<and>
    db_log u = db_log s @ Query c ?sql [(1, P_u64 room)] (Inr rs) # evs"
  let ?q = "andthen (query E ?sql [P_u64 room]) (\<lambda>res. lift (collect_u64 ''user_id'' res))"
  have scope: "wp (conn_scope E ?q) (\<lambda>r u. \<forall>us. r = Ret us \<longrightarrow> ?ok us u) s"
  proof (rule wp_with_conn)
    fix w p cs
    show "wp ?q (\<lambda>r t. \<forall>r' w p cs evs. closing evs \<longrightarrow> r' = r \<or> \<not> ends r' \<longrightarrow>
        (\<forall>us. r' = Ret us \<longrightarrow> ?ok us (t\<lparr>db_world := w, db_pool := p, db_conns := cs, db_log := db_log t @ evs\<rparr>)))
      (s\<lparr>db_world := w, db_pool := p, db_conns := cs\<rparr>)"
      unfolding wp_andthen
      by (rule wp_execute_query) (auto simp: wp_lift collect_u64_Ret split: outcome.splits)
  qed simp
  from assms obtain us u where u: "conn_scope E ?q s = (Ret us, u)"
    "andthen (lock_all us) (\<lambda>hs. post_all hs msg) u = (Ret (), t)"
    by (auto simp: write_to_room_def andthen_eq_Ret)
  from wp_result [OF scope u(1)] obtain c rs evs
    where ok: "map (\<lambda>r. row_u64 r ''user_id'') rs = map Inr us" "closing evs"
      "sys_sessions u = sys_sessions s" "sys_alive u = sys_alive s"
      "db_log u = db_log s @ Query c ?sql [(1, P_u64 room)] (Inr rs) # evs" by auto
  have "online u = online s" using ok(3,4) by (intro ext) (auto simp: online_def split: option.split)
  then have "handles u us = handles s us" by (simp add: handles_def)
  with u(2) ok(5) have "db_log t = db_log s @ Query c ?sql [(1, P_u64 room)] (Inr rs) #
      evs @ map (\<lambda>h. Post h msg) (handles s us)"
    by (auto simp: deliver_run)
  with ok(1,2) show ?thesis by blast
qed

definition member_row :: "u64 \<Rightarrow> row" where
  "member_row u = \<lparr>row_int = (\<lambda>l. Inl (SQLException ''no such column'')),
     row_u64 = (\<lambda>l. if l = ''user_id'' then Inr u else Inl (SQLException ''no such column'')),
     row_str = (\<lambda>l. Inl (SQLException ''no such column''))\<rparr>"

lemma member_row_u64 [simp]: "row_u64 (member_row u) ''user_id'' = Inr u"
  by (simp add: member_row_def)

lemma write_to_room_reaches_members_witness:
  "\<exists>t c b rs evs. write_to_room (demo_env (live_mysql (\<lambda>q. map member_row [7, 8, 7]) (\<lambda>q. 0))) 5 ''hi'' demo_sys
       = (Ret (), t) \<and> db_log t = Query c ''SELECT user_id FROM room_members WHERE room_id = ?'' b (Inr rs) #
      evs @ [Post 3 ''hi'', Post 3 ''hi'']"
proof -
  let ?E = "demo_env (live_mysql (\<lambda>q. map member_row [7, 8, 7]) (\<lambda>q. 0))"
  obtain t where t: "write_to_room ?E 5 ''hi'' demo_sys = (Ret (), t)"
    and hd: "\<exists>c b evs. db_log t = Query c ''SELECT user_id FROM room_members WHERE room_id = ?'' b
      (Inr (map member_row [7, 8, 7])) # evs"
    by (simp add: write_to_room_def run_defs demo_defs lock_session_run online_def post_all_run)
  from write_to_room_reaches_members [OF t] hd obtain c rs us evs where
    "rs = map member_row [7, 8, 7]" "map (\<lambda>r. row_u64 r ''user_id'') rs = map Inr us"
    and log: "db_log t = Query c ''SELECT user_id FROM room_members WHERE room_id = ?'' [(1, P_u64 5)] (Inr rs) #
      evs @ map (\<lambda>h. Post h ''hi'') (handles demo_sys us)"
    by (auto simp: demo_sys_def)
  then have "us = [7, 8, 7]" by (auto simp: Cons_eq_map_conv)
  then have "handles demo_sys us = [3, 3]" by (simp add: handles_def map_filter_simps online_def demo_sys_def)
  with t log show ?thesis by auto
qed

end
