(* ===== verification/WsHandler.thy ===== *)
theory WsHandler
  imports WsSessionMgr
begin

text \<open>
  \<open>WSHandler::handle_message\<close>, \<open>src/src/core/ws_handler.cpp\<close>: a message of a WebSocket
  client, handled by a worker inside one scoped connection and one transaction. Messages for
  clients go through the session table; their JSON is serialised by the parameter
  \<open>env_serialize\<close>.
\<close>

section \<open>The handler\<close>

definition membership_sql :: string where
  "membership_sql = ''SELECT 1 FROM room_members WHERE room_id = ? AND user_id = ?''"

definition insert_message_sql :: string where
  "insert_message_sql = ''INSERT INTO messages (id, room_id, sender_id, content) VALUES (?, ?, ?, ?)''"

definition last_message_sql :: string where
  "last_message_sql = ''UPDATE rooms set last_message_id = ? WHERE id = ?''"

text \<open>A \<open>ServerRespMsg<std::nullptr_t>\<close> as it goes out.\<close>

definition info_text :: "'w env \<Rightarrow> server_resp_type \<Rightarrow> string" where
  "info_text E ty = env_serialize E (server_resp_msg_json null_json \<lparr>srm_type = ty, srm_data = ()\<rparr>)"

definition quoted :: "string \<Rightarrow> string" where
  "quoted v = [CHR 0x22] @ v @ [CHR 0x22]"

definition handle_private_message :: "'w env \<Rightarrow> user_claims \<Rightarrow> client_private_msg \<Rightarrow> ('w sys, unit) prog" where
  "handle_private_message E user_claims private_msg =
     andthen (query E membership_sql [P_u64 (cpm_room_id private_msg), P_u64 (uc_id user_claims)]) (\<lambda>rows.
     if rows = [] then write_to (uc_id user_claims) (info_text E PermissionDenied)
     else
     andthen (sf_next E) (\<lambda>msg_id.
     andthen (update E insert_message_sql
       [P_u64 msg_id, P_u64 (cpm_room_id private_msg), P_u64 (uc_id user_claims), P_str (cpm_content private_msg)]) (\<lambda>updated_row1.
     if updated_row1 \<noteq> 1
     then raise (RuntimeError (''Failed to insert private message sent by '' @ quoted (uc_username user_claims)))
     else
     andthen (update E last_message_sql [P_u64 msg_id, P_u64 (cpm_room_id private_msg)]) (\<lambda>updated_row2.
     if updated_row2 \<noteq> 1
     then raise (RuntimeError (''Failed to update last message in private room, sent by '' @ quoted (uc_username user_claims)))
     else
     andthen (commit (env_mysql E)) (\<lambda>_.
     andthen (write_to (cpm_other_user_id private_msg)
       (env_serialize E (server_resp_msg_json private_msg_to_send_json
         \<lparr>srm_type = PMsgToSend,
          srm_data = \<lparr>pms_private_room_id = cpm_room_id private_msg, pms_content = cpm_content private_msg\<rparr>\<rparr>))) (\<lambda>_.
       write_to (uc_id user_claims) (info_text E MsgSentInfo)))))))"

definition handle_group_message :: "'w env \<Rightarrow> user_claims \<Rightarrow> client_group_msg \<Rightarrow> ('w sys, unit) prog" where
  "handle_group_message E user_claims group_msg =
     andthen (query E membership_sql [P_u64 (cgm_room_id group_msg), P_u64 (uc_id user_claims)]) (\<lambda>rows.
     if rows = [] then write_to (uc_id user_claims) (info_text E PermissionDenied)
     else
     andthen (sf_next E) (\<lambda>msg_id.
     andthen (update E insert_message_sql
       [P_u64 msg_id, P_u64 (cgm_room_id group_msg), P_u64 (uc_id user_claims), P_str (cgm_content group_msg)]) (\<lambda>updated_row1.
     if updated_row1 \<noteq> 1
     then raise (RuntimeError (''Failed to insert group message into group'' @ quoted (to_string (cgm_room_id group_msg)) @
       '', sent by '' @ quoted (uc_username user_claims)))
     else
     andthen (update E last_message_sql [P_u64 msg_id, P_u64 (cgm_room_id group_msg)]) (\<lambda>updated_row2.
     if updated_row2 \<noteq> 1
     then raise (RuntimeError (''Failed to update last message in group room, sent by '' @ quoted (uc_username user_claims)))
     else
     andthen (commit (env_mysql E)) (\<lambda>_.
       write_to_room E (cgm_room_id group_msg)
         (env_serialize E (server_resp_msg_json group_msg_to_send_json
           \<lparr>srm_type = GMsgToSend,
            srm_data = \<lparr>gms_room_id = cgm_room_id group_msg, gms_sender_id = uc_id user_claims,
              gms_content = cgm_content group_msg\<rparr>\<rparr>)))))))"

text \<open>\<open>as_string().c_str()\<close>: the text up to the first null character.\<close>

definition c_str :: "string \<Rightarrow> string" where
  "c_str v = takeWhile (\<lambda>c. c \<noteq> CHR 0x00) v"

definition handle_parsed :: "'w env \<Rightarrow> user_claims \<Rightarrow> json \<Rightarrow> ('w sys, unit) prog" where
  "handle_parsed E user_claims jv =
     (if \<not> is_object jv then raise (RuntimeError ''Invalid JSON format in WebSocket message'')
      else
      andthen (lift (as_object jv)) (\<lambda>obj.
      if (case map_of obj ''type'' of Some v \<Rightarrow> \<not> is_string v | None \<Rightarrow> True)
      then raise (RuntimeError (''Missing or invalid '' @ CHR 0x27 # ''type'' @ CHR 0x27 # '' field in WebSocket message''))
      else
      andthen (lift (str_field obj ''type'')) (\<lambda>ty.
      if c_str ty = ''private_message'' then
        andthen (lift (obind (json_at jv ''data'') to_client_private_msg)) (handle_private_message E user_claims)
      else if c_str ty = ''group_message'' then
        andthen (lift (obind (json_at jv ''data'') to_client_group_msg)) (handle_group_message E user_claims)
      else ret ())))"

definition handle_message :: "'w env \<Rightarrow> string \<Rightarrow> user_claims \<Rightarrow> ('w sys, unit) prog" where
  "handle_message E msg user_claims =
     conn_scope E (andthen (begin_transaction (env_mysql E)) (\<lambda>_.
       try_catch
         (andthen (lift (of_sum (env_parse E msg))) (handle_parsed E user_claims))
         (\<lambda>e. rollback (env_mysql E))))"

section \<open>Balance\<close>

lemma balanced_handle_message: "healthy (env_mysql E) \<Longrightarrow> balanced (handle_message E msg c)"
  unfolding handle_message_def handle_parsed_def handle_private_message_def handle_group_message_def
  by (intro balanced_intros) assumption+

end
