(* ===== verification/Traces.thy ===== *)
theory Traces
  imports WsSessionMgr Auth
begin

text \<open>
  Statements about the history a handler leaves: \<open>emits m Q\<close> says that every run of
  \<open>m\<close>, on every state and database, appends events \<open>tr\<close> and ends in an outcome \<open>r\<close> with
  \<open>Q r tr\<close>. The rules \<open>emits_rules\<close> follow the syntax of a handler, one rule per statement
  followed by its continuation, so \<open>intro\<close> takes a handler apart into its paths.
\<close>

section \<open>The judgement\<close>

definition emits :: "('w sys, 'a) prog \<Rightarrow> ('a outcome \<Rightarrow> event list \<Rightarrow> bool) \<Rightarrow> bool" where
  "emits m Q \<longleftrightarrow> (\<forall>s. wp m (\<lambda>r t. \<exists>tr. db_log t = db_log s @ tr \<and> Q r tr) s)"

definition fails :: "'a outcome \<Rightarrow> bool" where
  "fails r \<longleftrightarrow> (\<forall>x. r \<noteq> Ret x)"

lemma fails_simps [simp]: "\<not> fails (Ret x)" "fails (Throw e)" "fails Undef" "fails Hang" "fails Terminate"
  by (simp_all add: fails_def)

named_theorems emits_rules "a statement and its continuation"

lemma emitsD: "emits m Q \<Longrightarrow> m s = (r, t) \<Longrightarrow> \<exists>tr. db_log t = db_log s @ tr \<and> Q r tr"
  unfolding emits_def using wp_result by fastforce

lemma emits_mono: "emits m Q \<Longrightarrow> (\<And>r tr. Q r tr \<Longrightarrow> R r tr) \<Longrightarrow> emits m R"
  unfolding emits_def by (blast intro: wp_mono)

lemma emits_ret [emits_rules]: "Q (Ret x) [] \<Longrightarrow> emits (ret x) Q"
  by (simp add: emits_def wp_ret)

lemma emits_raise [emits_rules]: "Q (Throw e) [] \<Longrightarrow> emits (raise e) Q"
  by (simp add: emits_def wp_raise)

lemma emits_undef [emits_rules]: "Q Undef [] \<Longrightarrow> emits undef Q"
  by (simp add: emits_def wp_undef)

lemma emits_if [emits_rules]: "(b \<Longrightarrow> emits m Q) \<Longrightarrow> (\<not> b \<Longrightarrow> emits n Q) \<Longrightarrow> emits (if b then m else n) Q"
  by simp

lemma emits_list [emits_rules]:
  "(v = [] \<Longrightarrow> emits m Q) \<Longrightarrow> (\<And>x xs. v = x # xs \<Longrightarrow> emits (f x xs) Q) \<Longrightarrow>
     emits (case v of [] \<Rightarrow> m | x # xs \<Rightarrow> f x xs) Q"
  by (cases v) auto

lemma emits_sum [emits_rules]:
  "(\<And>e. v = Inl e \<Longrightarrow> emits (f e) Q) \<Longrightarrow> (\<And>x. v = Inr x \<Longrightarrow> emits (g x) Q) \<Longrightarrow>
     emits (case v of Inl e \<Rightarrow> f e | Inr x \<Rightarrow> g x) Q"
  by (cases v) auto

text \<open>A step followed by the rest: what the step can emit, then the rest after each success.\<close>

lemma emits_then:
  fixes m :: "('w sys, 'a) prog"
  assumes m: "emits m R"
    and cont: "\<And>x tr. R (Ret x) tr \<Longrightarrow> emits (f x) (\<lambda>r tr'. Q r (tr @ tr'))"
    and failed: "\<And>q r tr. R q tr \<Longrightarrow> fails q \<Longrightarrow> fails r \<Longrightarrow> Q r tr"
  shows "emits (andthen m f) Q"
  unfolding emits_def wp_andthen
proof (intro allI, rule wp_mono)
  fix s
  show "wp m (\<lambda>r t. \<exists>tr. db_log t = db_log s @ tr \<and> R r tr) s" using m by (simp add: emits_def)
  fix r and t :: "'w sys" assume "\<exists>tr. db_log t = db_log s @ tr \<and> R r tr"
  then obtain tr where tr: "db_log t = db_log s @ tr" "R r tr" by blast
  let ?Q = "\<lambda>r t. \<exists>tr. db_log t = db_log s @ tr \<and> Q r tr"
  show "case r of Ret x \<Rightarrow> wp (f x) ?Q t | Throw e \<Rightarrow> ?Q (Throw e) t | Undef \<Rightarrow> ?Q Undef t
     | Hang \<Rightarrow> ?Q Hang t | Terminate \<Rightarrow> ?Q Terminate t"
  proof (cases r)
    case (Ret x)
    have "emits (f x) (\<lambda>r tr'. Q r (tr @ tr'))" using cont tr(2) Ret by blast
    then have "wp (f x) (\<lambda>r u. \<exists>tr'. db_log u = db_log t @ tr' \<and> Q r (tr @ tr')) t"
      by (simp only: emits_def)
    then have "wp (f x) ?Q t" by (rule wp_mono) (use tr(1) in auto)
    with Ret show ?thesis by simp
  qed (use tr failed in auto)
qed

lemma emits_lift_then [emits_rules]:
  assumes "\<And>x. v = Ret x \<Longrightarrow> emits (f x) Q" "\<And>r. fails r \<Longrightarrow> Q r []"
  shows "emits (andthen (lift v) f) Q"
  by (rule emits_then [where R = "\<lambda>r tr. r = v \<and> tr = []"]) (use assms in \<open>auto simp: emits_def wp_lift\<close>)

lemma emits_silent:
  assumes "\<And>s. wp m (\<lambda>r t. db_log t = db_log s) s" "\<And>x. emits (f x) Q" "\<And>r. fails r \<Longrightarrow> Q r []"
  shows "emits (andthen m f) Q"
  by (rule emits_then [where R = "\<lambda>r tr. tr = []"]) (use assms in \<open>auto simp: emits_def\<close>)

lemma emits_steps_then [emits_rules]:
  assumes "\<And>x. emits (f x) Q" "\<And>r. fails r \<Longrightarrow> Q r []"
  shows "emits (andthen (sf_next E) f) Q"
  by (rule emits_silent) (use assms in \<open>auto intro!: wp_intros\<close>)

lemma emits_outside_then [emits_rules]:
  assumes "\<And>x. emits (f x) Q" "\<And>r. fails r \<Longrightarrow> Q r []"
  shows "emits (andthen (generate_login_token E u i) f) Q"
  by (rule emits_silent) (use assms in \<open>auto intro!: wp_intros\<close>)

lemma emits_hash_then [emits_rules]:
  assumes "\<And>x. emits (f x) Q" "\<And>r. fails r \<Longrightarrow> Q r []"
  shows "emits (andthen (hash_password E p) f) Q"
  by (rule emits_silent) (use assms in \<open>auto intro!: wp_intros\<close>)

text \<open>Statements: they reach the database or fail before.\<close>

lemma emits_query:
  "emits (query E sql ps) (\<lambda>r tr. (\<exists>c q. r = of_sum q \<and> tr = [Query c sql (bind_all_param 1 ps) q]) \<or> fails r \<and> tr = [])"
  by (auto simp: emits_def fails_def intro!: wp_execute_query)

lemma emits_update:
  "emits (update E sql ps) (\<lambda>r tr. (\<exists>c q. r = of_sum q \<and> tr = [Update c sql (bind_all_param 1 ps) q]) \<or> fails r \<and> tr = [])"
  by (auto simp: emits_def fails_def intro!: wp_execute_update)

lemma fails_of_sum: "fails (of_sum q) \<longleftrightarrow> (\<exists>e. q = Inl e)"
  by (cases q) auto

lemma emits_query_then [emits_rules]:
  assumes "\<And>c x. emits (f x) (\<lambda>r tr. Q r (Query c sql (bind_all_param 1 ps) (Inr x) # tr))"
    and "\<And>c e r. fails r \<Longrightarrow> Q r [Query c sql (bind_all_param 1 ps) (Inl e)]" "\<And>r. fails r \<Longrightarrow> Q r []"
  shows "emits (andthen (query E sql ps) f) Q"
  by (rule emits_then [OF emits_query]) (use assms in \<open>auto simp: fails_of_sum\<close>)

lemma emits_update_then [emits_rules]:
  assumes "\<And>c x. emits (f x) (\<lambda>r tr. Q r (Update c sql (bind_all_param 1 ps) (Inr x) # tr))"
    and "\<And>c e r. fails r \<Longrightarrow> Q r [Update c sql (bind_all_param 1 ps) (Inl e)]" "\<And>r. fails r \<Longrightarrow> Q r []"
  shows "emits (andthen (update E sql ps) f) Q"
  by (rule emits_then [OF emits_update]) (use assms in \<open>auto simp: fails_of_sum\<close>)

lemma emits_transaction:
  "emits (begin_transaction M) (\<lambda>r tr. \<exists>c q. r = of_sum q \<and> tr = [Autocommit c False q])"
  "emits (commit M) (\<lambda>r tr. \<exists>c q. r = of_sum q \<and> tr = [Commit c q])"
  "emits (rollback M) (\<lambda>r tr. \<exists>c q. r = of_sum q \<and> tr = [Rollback c q])"
  by (auto simp: emits_def intro!: wp_transaction)

lemma emits_begin_then [emits_rules]:
  assumes "\<And>c x. emits (f x) (\<lambda>r tr. Q r (Autocommit c False (Inr x) # tr))"
    and "\<And>c e r. fails r \<Longrightarrow> Q r [Autocommit c False (Inl e)]"
  shows "emits (andthen (begin_transaction M) f) Q"
  by (rule emits_then [OF emits_transaction(1)]) (use assms in \<open>auto simp: fails_of_sum\<close>)

lemma emits_commit_then [emits_rules]:
  assumes "\<And>c x. emits (f x) (\<lambda>r tr. Q r (Commit c (Inr x) # tr))"
    and "\<And>c e r. fails r \<Longrightarrow> Q r [Commit c (Inl e)]"
  shows "emits (andthen (commit M) f) Q"
  by (rule emits_then [OF emits_transaction(2)]) (use assms in \<open>auto simp: fails_of_sum\<close>)

lemma emits_rollback_then [emits_rules]:
  assumes "\<And>c x. emits (f x) (\<lambda>r tr. Q r (Rollback c (Inr x) # tr))"
    and "\<And>c e r. fails r \<Longrightarrow> Q r [Rollback c (Inl e)]"
  shows "emits (andthen (rollback M) f) Q"
  by (rule emits_then [OF emits_transaction(3)]) (use assms in \<open>auto simp: fails_of_sum\<close>)

lemma emits_try:
  fixes m :: "('w sys, 'a) prog"
  assumes "emits m R" "\<And>r tr. R r tr \<Longrightarrow> (\<forall>e. r \<noteq> Throw e) \<Longrightarrow> Q r tr"
    and "\<And>e tr. R (Throw e) tr \<Longrightarrow> emits (h e) (\<lambda>r tr'. Q r (tr @ tr'))"
  shows "emits (try_catch m h) Q"
  unfolding emits_def wp_try_catch
proof (intro allI, rule wp_mono)
  fix s
  show "wp m (\<lambda>r t. \<exists>tr. db_log t = db_log s @ tr \<and> R r tr) s" using assms(1) by (simp add: emits_def)
  fix r and t :: "'w sys" assume "\<exists>tr. db_log t = db_log s @ tr \<and> R r tr"
  then obtain tr where tr: "db_log t = db_log s @ tr" "R r tr" by blast
  let ?Q = "\<lambda>r t. \<exists>tr. db_log t = db_log s @ tr \<and> Q r tr"
  show "case r of Throw e \<Rightarrow> wp (h e) ?Q t | _ \<Rightarrow> ?Q r t"
  proof (cases r)
    case (Throw e)
    have "emits (h e) (\<lambda>r tr'. Q r (tr @ tr'))" using assms(3) tr(2) Throw by blast
    then have "wp (h e) (\<lambda>r u. \<exists>tr'. db_log u = db_log t @ tr' \<and> Q r (tr @ tr')) t"
      by (simp only: emits_def)
    then have "wp (h e) ?Q t" by (rule wp_mono) (use tr(1) in auto)
    with Throw show ?thesis by simp
  qed (use tr assms(2) in auto)
qed

lemma emits_scope:
  assumes "emits body R" "\<And>r r' tr evs. R r tr \<Longrightarrow> closing evs \<Longrightarrow> r' = r \<or> \<not> ends r' \<Longrightarrow> Q r' (tr @ evs)"
    and "\<And>r. fails r \<Longrightarrow> Q r []"
  shows "emits (conn_scope E body) Q"
  unfolding emits_def
proof
  fix s
  show "wp (conn_scope E body) (\<lambda>r t. \<exists>tr. db_log t = db_log s @ tr \<and> Q r tr) s"
  proof (rule wp_with_conn)
    fix w p cs
    let ?s = "s\<lparr>db_world := w, db_pool := p, db_conns := cs\<rparr>"
    have "wp body (\<lambda>r t. \<exists>tr. db_log t = db_log ?s @ tr \<and> R r tr) ?s" using assms(1) by (simp only: emits_def)
    then show "wp body (\<lambda>r t. \<forall>r' w p cs evs. closing evs \<longrightarrow> r' = r \<or> \<not> ends r' \<longrightarrow>
      (\<exists>tr. db_log (t\<lparr>db_world := w, db_pool := p, db_conns := cs, db_log := db_log t @ evs\<rparr>) = db_log s @ tr \<and> Q r' tr)) ?s"
      by (rule wp_mono) (use assms(2) in force)
  qed (use assms(3) in \<open>simp add: fails_def\<close>)
qed

text \<open>Messages to sessions.\<close>

lemma emits_write_to: "emits (write_to u msg) (\<lambda>r tr. r = Ret () \<and> (tr = [] \<or> (\<exists>h. tr = [Post h msg])))"
  by (auto simp: emits_def wp_def write_to_run split: option.splits)

definition room_event :: "string \<Rightarrow> event \<Rightarrow> bool" where
  "room_event msg e \<longleftrightarrow> (case e of
       Query _ sql _ _ \<Rightarrow> sql = ''SELECT user_id FROM room_members WHERE room_id = ?''
     | Autocommit _ b _ \<Rightarrow> b
     | Post _ m \<Rightarrow> m = msg
     | _ \<Rightarrow> False)"

lemma closing_room_event: "closing evs \<Longrightarrow> list_all (room_event msg) evs"
  by (auto simp: closing_def room_event_def)

lemma emits_deliver:
  "emits (andthen (lock_all us) (\<lambda>hs. post_all hs msg)) (\<lambda>r tr. list_all (room_event msg) tr)"
  by (auto simp: emits_def wp_def deliver_run room_event_def list_all_iff)

lemma emits_write_to_room: "emits (write_to_room E room msg) (\<lambda>r tr. list_all (room_event msg) tr)"
  unfolding write_to_room_def
proof (rule emits_then [where R = "\<lambda>r tr. list_all (room_event msg) tr"])
  show "emits (conn_scope E (andthen (query E ''SELECT user_id FROM room_members WHERE room_id = ?'' [P_u64 room])
      (\<lambda>res. lift (collect_u64 ''user_id'' res)))) (\<lambda>r tr. list_all (room_event msg) tr)"
  proof (rule emits_scope [where R = "\<lambda>r tr. list_all (room_event msg) tr"])
    show "emits (andthen (query E ''SELECT user_id FROM room_members WHERE room_id = ?'' [P_u64 room])
        (\<lambda>res. lift (collect_u64 ''user_id'' res))) (\<lambda>r tr. list_all (room_event msg) tr)"
      by (rule emits_query_then) (simp_all add: emits_def wp_lift room_event_def)
  qed (simp_all add: closing_room_event)
qed (auto intro: emits_mono [OF emits_deliver])

lemma emits_write_to_I [emits_rules]:
  "Q (Ret ()) [] \<Longrightarrow> (\<And>h. Q (Ret ()) [Post h msg]) \<Longrightarrow> emits (write_to u msg) Q"
  by (rule emits_mono [OF emits_write_to]) auto

lemma emits_write_to_then [emits_rules]:
  assumes "emits (f ()) Q" "\<And>h. emits (f ()) (\<lambda>r tr. Q r (Post h msg # tr))"
  shows "emits (andthen (write_to u msg) f) Q"
  by (rule emits_then [OF emits_write_to]) (use assms in auto)

lemma emits_write_to_room_I [emits_rules]:
  "(\<And>r tr. list_all (room_event msg) tr \<Longrightarrow> Q r tr) \<Longrightarrow> emits (write_to_room E room msg) Q"
  by (rule emits_mono [OF emits_write_to_room])

end
