(* ===== verification/HandlerSafety.thy ===== *)
theory HandlerSafety
  imports RequestHandler WsHandler Traces
begin

text \<open>
  What the handlers do to the database and to other clients, for every database: which
  statements can precede which, when a transaction is committed, and what a caller is told. Each
  property speaks about the events that one run of a handler appends to the history.
\<close>

section \<open>Order of events\<close>

text \<open>\<open>precedes guard act tr\<close>: no \<open>act\<close> event comes before the first \<open>guard\<close> event.\<close>

fun precedes :: "('e \<Rightarrow> bool) \<Rightarrow> ('e \<Rightarrow> bool) \<Rightarrow> 'e list \<Rightarrow> bool" where
  "precedes guard act [] = True"
| "precedes guard act (e # es) = (\<not> act e \<and> (guard e \<or> precedes guard act es))"

lemma precedes_append_harmless:
  "list_all (\<lambda>e. \<not> act e) es \<Longrightarrow> precedes guard act (tr @ es) = precedes guard act tr"
  by (induction tr) (auto, induction es, auto)


definition is_update :: "event \<Rightarrow> bool" where
  "is_update e = (case e of Update _ _ _ _ \<Rightarrow> True | _ \<Rightarrow> False)"

definition committed :: "event list \<Rightarrow> bool" where
  "committed tr = list_ex (\<lambda>e. case e of Commit _ (Inr _) \<Rightarrow> True | _ \<Rightarrow> False) tr"

lemma event_simps [simp]:
  "\<not> is_update (Autocommit c b q)" "\<not> is_update (Commit c q)" "\<not> is_update (Rollback c q)"
  "\<not> is_update (Query c s bs rs)" "is_update (Update c s bs n)" "\<not> is_update (Post h m)"
  by (simp_all add: is_update_def)

lemma committed_simps [simp]:
  "\<not> committed []" "committed (Commit c (Inr u) # tr)" "committed (Commit c (Inl e) # tr) = committed tr"
  "committed (Autocommit c b q # tr) = committed tr" "committed (Rollback c q # tr) = committed tr"
  "committed (Query c s bs rs # tr) = committed tr" "committed (Update c s bs n # tr) = committed tr"
  "committed (Post h m # tr) = committed tr" "committed (tr @ tr') = (committed tr \<or> committed tr')"
  by (simp_all add: committed_def)

lemma closing_harmless [simp]: "closing evs \<Longrightarrow> \<not> committed evs" "closing evs \<Longrightarrow> list_all (\<lambda>e. \<not> is_update e) evs"
  by (auto simp: closing_def)

lemma emits_run: "emits m Q \<Longrightarrow> \<exists>tr. db_log (snd (m s)) = db_log s @ tr \<and> Q (fst (m s)) tr"
  using emitsD [of m Q s "fst (m s)" "snd (m s)"] by simp

definition is_commit :: "event \<Rightarrow> bool" where
  "is_commit e = (case e of Commit _ _ \<Rightarrow> True | _ \<Rightarrow> False)"

text \<open>An update with the given text whose row count satisfies \<open>P\<close>.\<close>

definition affected :: "string \<Rightarrow> (int \<Rightarrow> bool) \<Rightarrow> event \<Rightarrow> bool" where
  "affected sql P e = (case e of Update _ s _ (Inr n) \<Rightarrow> s = sql \<and> P n | _ \<Rightarrow> False)"

lemma commit_simps [simp]:
  "\<not> is_commit (Autocommit c b q)" "is_commit (Commit c q)" "\<not> is_commit (Rollback c q)"
  "\<not> is_commit (Query c s bs rs)" "\<not> is_commit (Update c s bs n)" "\<not> is_commit (Post h m)"
  "closing evs \<Longrightarrow> list_all (\<lambda>e. \<not> is_commit e) evs"
  by (auto simp: is_commit_def closing_def)

lemma affected_simps [simp]:
  "affected sql P (Update c s bs (Inr n)) = (s = sql \<and> P n)" "\<not> affected sql P (Update c s bs (Inl e))"
  "\<not> affected sql P (Autocommit c b q)" "\<not> affected sql P (Commit c q)" "\<not> affected sql P (Rollback c q)"
  "\<not> affected sql P (Query c s bs rs)"
  by (simp_all add: affected_def)

text \<open>What the caller learns agrees with the fate of the transaction.\<close>

definition honest :: "response outcome \<Rightarrow> event list \<Rightarrow> bool" where
  "honest r tr = (case r of
       Ret resp \<Rightarrow> committed tr = (rs_status resp = 200)
     | Throw e \<Rightarrow> \<not> committed tr
     | _ \<Rightarrow> True)"

text \<open>The same before the handlers of exceptions and the end of the scope have run.\<close>

definition strictly_honest :: "response outcome \<Rightarrow> event list \<Rightarrow> bool" where
  "strictly_honest r tr = (committed tr = (case r of Ret resp \<Rightarrow> rs_status resp = 200 | _ \<Rightarrow> False))"

lemma honest_simps [simp]:
  "honest (Ret resp) tr = (committed tr = (rs_status resp = 200))" "honest (Throw e) tr = (\<not> committed tr)"
  "strictly_honest (Ret resp) tr = (committed tr = (rs_status resp = 200))" "strictly_honest (Throw e) tr = (\<not> committed tr)"
  "fails r \<Longrightarrow> strictly_honest r tr = (\<not> committed tr)" "\<not> ends r \<Longrightarrow> honest r tr"
  by (cases r; simp add: honest_def strictly_honest_def)+

lemma honest_closing: "strictly_honest r tr \<or> honest r tr \<Longrightarrow> closing evs \<Longrightarrow> r' = r \<or> \<not> ends r' \<Longrightarrow> honest r' (tr @ evs)"
  by (cases r; cases r') (auto simp: honest_def strictly_honest_def)

lemma honest_begin [simp]: "honest r (Autocommit c b q # tr) = honest r tr"
  by (cases r) simp_all

text \<open>
  The frame of the room handlers: a body in \<open>try\<close>, a rollback and an error reply in
  \<open>catch\<close>, inside a scope.
\<close>

lemma emits_rollback_reply:
  assumes "emits body (\<lambda>r tr. strictly_honest r tr \<and> P tr)" "rs_status reply \<noteq> 200"
    and "\<And>tr c q. P tr \<Longrightarrow> P (tr @ [Rollback c q])"
  shows "emits (try_catch body (\<lambda>e. andthen (rollback M) (\<lambda>_. ret reply))) (\<lambda>r tr. honest r tr \<and> P tr)"
proof (rule emits_try [OF assms(1)])
  fix e tr assume b: "strictly_honest (Throw e) tr \<and> P tr"
  then have "honest r (tr @ [Rollback c (Inl x)]) \<and> P (tr @ [Rollback c (Inl x)])" if "fails r" for r c x
    using assms(3) that by (cases r) auto
  with b assms(2,3) show "emits (andthen (rollback M) (\<lambda>_. ret reply)) (\<lambda>r tr'. honest r (tr @ tr') \<and> P (tr @ tr'))"
    by (intro emits_rollback_then emits_ret) auto
qed (auto simp: honest_def strictly_honest_def split: outcome.splits)

lemma emits_honest_scope:
  assumes "emits body (\<lambda>r tr. honest r tr \<and> P tr)" "P []" "\<And>tr evs. P tr \<Longrightarrow> closing evs \<Longrightarrow> P (tr @ evs)"
  shows "emits (conn_scope E body) (\<lambda>r tr. honest r tr \<and> P tr)"
  by (rule emits_scope [OF assms(1)])
    (use assms(2,3) honest_closing in \<open>auto simp: honest_def split: outcome.splits\<close>)

section \<open>Deleting a room\<close>

text \<open>The row of the caller in the room, with the role of its owner.\<close>

definition owner_row :: "'w env \<Rightarrow> http_request \<Rightarrow> u64 \<Rightarrow> event \<Rightarrow> bool" where
  "owner_row E req room e = (case e of
     Query c sql b (Inr (row # rows)) \<Rightarrow>
       (\<exists>claims. extract_user_claims E (auth_field req) = Ret claims \<and>
          sql = ''SELECT role FROM room_members WHERE room_id = ? AND user_id = ?'' \<and>
          b = [(1, P_u64 room), (2, P_u64 (uc_id claims))] \<and> row_int row ''role'' = Inr (role_int OWNER))
   | _ \<Rightarrow> False)"

definition member_delete :: string where
  "member_delete = ''DELETE FROM room_members WHERE room_id = ?''"

definition room_delete :: string where
  "room_delete = ''DELETE FROM rooms WHERE id = ?''"

definition delete_order :: "'w env \<Rightarrow> http_request \<Rightarrow> u64 \<Rightarrow> event list \<Rightarrow> bool" where
  "delete_order E req room tr \<longleftrightarrow> precedes (owner_row E req room) is_update tr \<and>
     precedes (affected member_delete (\<lambda>n. n \<noteq> 0)) is_commit tr \<and>
     precedes (affected room_delete (\<lambda>n. n \<noteq> 0)) is_commit tr"

lemma delete_room_body_emits:
  "emits (delete_room_body E req room) (\<lambda>r tr. strictly_honest r tr \<and> delete_order E req room tr)"
  unfolding delete_room_body_def
  by (intro emits_rules)
    (simp_all add: owner_row_def delete_order_def member_delete_def room_delete_def error_resp_def
      ok_response_def create_json_response_def)

lemma delete_order_more:
  "list_all (\<lambda>e. \<not> is_update e \<and> \<not> is_commit e) es \<Longrightarrow> delete_order E req room tr \<Longrightarrow> delete_order E req room (tr @ es)"
  unfolding delete_order_def by (subst precedes_append_harmless; auto simp: list_all_iff)+

lemma delete_order_begin: "delete_order E req room (Autocommit c b q # tr) = delete_order E req room tr"
  by (simp add: delete_order_def owner_row_def)

lemma delete_room_emits:
  "emits (delete_room E req room) (\<lambda>r tr. honest r tr \<and> delete_order E req room tr)"
  unfolding delete_room_def
proof (rule emits_honest_scope)
  show "emits (andthen (begin_transaction (env_mysql E)) (\<lambda>_. try_catch (delete_room_body E req room)
      (\<lambda>e. andthen (rollback (env_mysql E)) (\<lambda>_. ret (error_resp E req BadRequest '' Server error'')))))
    (\<lambda>r tr. honest r tr \<and> delete_order E req room tr)"
  proof (rule emits_begin_then)
    fix c x
    show "emits (try_catch (delete_room_body E req room) (\<lambda>e. andthen (rollback (env_mysql E))
        (\<lambda>_. ret (error_resp E req BadRequest '' Server error''))))
      (\<lambda>r tr. honest r (Autocommit c False (Inr x) # tr) \<and> delete_order E req room (Autocommit c False (Inr x) # tr))"
      by (rule emits_mono [OF emits_rollback_reply [OF delete_room_body_emits]])
        (auto simp: error_resp_def create_json_response_def delete_order_begin intro!: delete_order_more)
  qed (auto simp: honest_def delete_order_def split: outcome.splits)
qed (auto simp: closing_def delete_order_def intro!: delete_order_more [unfolded delete_order_def])


section \<open>Creating rooms\<close>

definition p_room_insert :: string where
  "p_room_insert = ''INSERT INTO rooms (id, type) VALUES (?, ?)''"

definition p_members_insert :: string where
  "p_members_insert = ''INSERT INTO room_members (room_id, user_id, role)VALUES (?, ?, ?), (?, ?, ?)''"

definition p_room_order :: "event list \<Rightarrow> bool" where
  "p_room_order tr \<longleftrightarrow> precedes (affected p_room_insert (\<lambda>n. n = 1)) is_commit tr \<and>
     precedes (affected p_members_insert (\<lambda>n. n = 2)) is_commit tr"

lemma p_room_order_more:
  "list_all (\<lambda>e. \<not> is_commit e) es \<Longrightarrow> p_room_order tr \<Longrightarrow> p_room_order (tr @ es)"
  unfolding p_room_order_def by (subst precedes_append_harmless; auto simp: list_all_iff)+

lemma create_p_room_body_emits:
  "emits (create_p_room_body E req) (\<lambda>r tr. strictly_honest r tr \<and> p_room_order tr)"
  unfolding create_p_room_body_def
  by (intro emits_rules)
    (simp_all add: p_room_order_def p_room_insert_def p_members_insert_def ok_response_def create_json_response_def)

lemma create_p_room_emits:
  "emits (create_p_room E req) (\<lambda>r tr. honest r tr \<and> p_room_order tr)"
  unfolding create_p_room_def
proof (rule emits_if)
  show "emits (conn_scope E (try_catch (create_p_room_body E req) (\<lambda>e. andthen (rollback (env_mysql E))
      (\<lambda>_. ret (bad_request E req '' Server Error''))))) (\<lambda>r tr. honest r tr \<and> p_room_order tr)"
    by (intro emits_honest_scope emits_rollback_reply create_p_room_body_emits)
      (auto simp: p_room_order_def bad_request_def create_json_response_def intro!: p_room_order_more [unfolded p_room_order_def])
qed (intro emits_rules, simp add: p_room_order_def bad_request_def create_json_response_def)


definition g_room_insert :: string where
  "g_room_insert = ''INSERT INTO rooms (id, name, type, owner_id) VALUES (?, ?, ?, ?)''"

definition g_owner_insert :: string where
  "g_owner_insert = ''INSERT INTO room_members (room_id, user_id, role) VALUES (?, ?, ?)''"

definition both_inserted :: "event list \<Rightarrow> bool" where
  "both_inserted tr \<longleftrightarrow> list_ex (affected g_room_insert (\<lambda>n. n = 1)) tr \<and> list_ex (affected g_owner_insert (\<lambda>n. n = 1)) tr"

definition g_room_reply :: "response outcome \<Rightarrow> event list \<Rightarrow> bool" where
  "g_room_reply r tr = (case r of Ret resp \<Rightarrow> both_inserted tr = (rs_status resp = 200) | _ \<Rightarrow> True)"

definition uncommitted :: "event list \<Rightarrow> bool" where
  "uncommitted tr = list_all (\<lambda>e. \<not> is_commit e) tr"

lemma create_g_room_body_emits:
  "emits (create_g_room_body E req) (\<lambda>r tr. both_inserted tr = (case r of Ret resp \<Rightarrow> rs_status resp = 200 | _ \<Rightarrow> False) \<and>
     uncommitted tr)"
  unfolding create_g_room_body_def
  by (intro emits_rules)
    (auto simp: both_inserted_def g_room_insert_def g_owner_insert_def ok_response_def create_json_response_def
      uncommitted_def split: outcome.splits)

lemma closing_inserts [simp]:
  "closing evs \<Longrightarrow> both_inserted (tr @ evs) = both_inserted tr" "both_inserted (tr @ [Rollback c q]) = both_inserted tr"
  "closing evs \<Longrightarrow> uncommitted evs" "uncommitted (tr @ tr') = (uncommitted tr \<and> uncommitted tr')"
  "uncommitted []" "uncommitted [Rollback c q]" "\<not> both_inserted []"
  by (auto simp: both_inserted_def closing_def uncommitted_def)

lemma create_g_room_emits:
  "emits (create_g_room E req) (\<lambda>r tr. g_room_reply r tr \<and> uncommitted tr)"
  unfolding create_g_room_def
proof (rule emits_if)
  show "emits (conn_scope E (try_catch (create_g_room_body E req) (\<lambda>e. andthen (rollback (env_mysql E))
      (\<lambda>_. ret (bad_request E req '' Server Error''))))) (\<lambda>r tr. g_room_reply r tr \<and> uncommitted tr)"
  proof (rule emits_scope)
    show "emits (try_catch (create_g_room_body E req) (\<lambda>e. andthen (rollback (env_mysql E))
      (\<lambda>_. ret (bad_request E req '' Server Error'')))) (\<lambda>r tr. g_room_reply r tr \<and> uncommitted tr)"
    proof (rule emits_try [OF create_g_room_body_emits])
      fix e tr assume "both_inserted tr = (case Throw e :: response outcome of Ret resp \<Rightarrow> rs_status resp = 200 | _ \<Rightarrow> False) \<and> uncommitted tr"
      then show "emits (andthen (rollback (env_mysql E)) (\<lambda>_. ret (bad_request E req '' Server Error'')))
        (\<lambda>r tr'. g_room_reply r (tr @ tr') \<and> uncommitted (tr @ tr'))"
        by (intro emits_rules) (auto simp: g_room_reply_def bad_request_def create_json_response_def split: outcome.splits)
    qed (auto simp: g_room_reply_def split: outcome.splits)
  qed (auto simp: g_room_reply_def split: outcome.splits)
qed (intro emits_rules, simp add: g_room_reply_def bad_request_def create_json_response_def)

text \<open>
  \<open>create_g_room\<close> never commits: whatever the database does, no \<open>commit\<close> is issued,
  although the reply is 200 exactly when both rows were inserted. What ends the transaction is
  the switch back to auto-commit in the destructor of the scope.
\<close>

theorem create_g_room_never_commits:
  "\<exists>tr. db_log (snd (create_g_room E req s)) = db_log s @ tr \<and> uncommitted tr \<and>
     g_room_reply (fst (create_g_room E req s)) tr"
  using emits_run [OF create_g_room_emits, of E req s] by auto

section \<open>Messages\<close>

text \<open>The check that a user is in a room, and the statements that change data.\<close>

definition member_check :: "u64 \<Rightarrow> u64 \<Rightarrow> event \<Rightarrow> bool" where
  "member_check uid room e = (case e of
     Query _ sql b (Inr (row # rows)) \<Rightarrow> sql = membership_sql \<and> b = [(1, P_u64 room), (2, P_u64 uid)]
   | _ \<Rightarrow> False)"

definition stores :: "u64 \<Rightarrow> u64 \<Rightarrow> event \<Rightarrow> bool" where
  "stores uid room e = (case e of
     Update _ sql b _ \<Rightarrow>
       (\<exists>i text. sql = insert_message_sql \<and> b = [(1, P_u64 i), (2, P_u64 room), (3, P_u64 uid), (4, P_str text)]) \<or>
       (\<exists>i. sql = last_message_sql \<and> b = [(1, P_u64 i), (2, P_u64 room)])
   | _ \<Rightarrow> False)"

text \<open>A message for a client other than the refusal.\<close>

definition delivers :: "'w env \<Rightarrow> event \<Rightarrow> bool" where
  "delivers E e = (case e of Post _ m \<Rightarrow> m \<noteq> info_text E PermissionDenied | _ \<Rightarrow> False)"

definition commit_done :: "event \<Rightarrow> bool" where
  "commit_done e = (case e of Commit _ (Inr _) \<Rightarrow> True | _ \<Rightarrow> False)"

definition message_order :: "'w env \<Rightarrow> u64 \<Rightarrow> event list \<Rightarrow> bool" where
  "message_order E uid tr \<longleftrightarrow>
     (\<exists>room. precedes (member_check uid room) is_update tr \<and> list_all (\<lambda>e. is_update e = stores uid room e) tr) \<and>
     precedes (affected insert_message_sql (\<lambda>n. n = 1)) is_commit tr \<and>
     precedes (affected last_message_sql (\<lambda>n. n = 1)) is_commit tr \<and>
     precedes commit_done (delivers E) tr"

lemma message_event_simps [simp]:
  "\<not> stores uid room (Autocommit c b q)" "\<not> stores uid room (Commit c q)" "\<not> stores uid room (Rollback c q)"
  "\<not> stores uid room (Query c sql bs rs)" "\<not> stores uid room (Post h m)"
  "\<not> delivers E (Autocommit c b q)" "\<not> delivers E (Commit c q)" "\<not> delivers E (Rollback c q)"
  "\<not> delivers E (Query c sql bs rs)" "\<not> delivers E (Update c sql bs n)"
  "commit_done (Commit c (Inr u))" "\<not> commit_done (Commit c (Inl e))" "\<not> commit_done (Query c sql bs rs)"
  "\<not> affected sql P (Post h m)" "delivers E (Post h msg) = (msg \<noteq> info_text E PermissionDenied)"
  "member_check uid room (Query c sql bs (Inr rows)) =
     (rows \<noteq> [] \<and> sql = membership_sql \<and> bs = [(1, P_u64 room), (2, P_u64 uid)])"
  by (auto simp: stores_def delivers_def commit_done_def affected_def member_check_def split: list.splits)

lemma stores_update [simp]:
  "stores uid room (Update c sql bs n) \<longleftrightarrow>
     (\<exists>i txt. sql = insert_message_sql \<and> bs = [(1, P_u64 i), (2, P_u64 room), (3, P_u64 uid), (4, P_str txt)]) \<or>
     (\<exists>i. sql = last_message_sql \<and> bs = [(1, P_u64 i), (2, P_u64 room)])"
  by (simp add: stores_def)

lemma room_event_stores: "room_event msg e \<Longrightarrow> is_update e = stores uid room e"
  by (cases e) (simp_all add: room_event_def)

lemma room_events_store:
  "list_all (room_event msg) tr \<Longrightarrow> list_all (\<lambda>e. is_update e = stores uid room e) tr"
  unfolding list_all_iff using room_event_stores by blast

lemma handle_private_message_emits:
  "emits (handle_private_message E c m) (\<lambda>r tr. message_order E (uc_id c) tr)"
  unfolding handle_private_message_def
  by (intro emits_rules)
    (simp_all add: message_order_def insert_message_sql_def last_message_sql_def numeral_3_eq_3 numeral_eq_Suc)

lemma stores_is_update: "stores uid room e \<Longrightarrow> is_update e"
  by (cases e) simp_all

lemma message_order_more:
  assumes "list_all (\<lambda>e. \<not> is_update e \<and> \<not> is_commit e \<and> \<not> delivers E e) es" "message_order E uid tr"
  shows "message_order E uid (tr @ es)"
proof -
  have no: "list_all (\<lambda>e. \<not> is_update e) es" "list_all (\<lambda>e. \<not> is_commit e) es" "list_all (\<lambda>e. \<not> delivers E e) es"
    using assms(1) by (auto simp: list_all_iff)
  have "list_all (\<lambda>e. is_update e = stores uid room e) es" for room
    using no(1) stores_is_update by (fastforce simp: list_all_iff)
  with assms(2) show ?thesis
    by (auto simp: message_order_def precedes_append_harmless no)
qed

lemma handle_group_message_emits:
  "emits (handle_group_message E c m) (\<lambda>r tr. message_order E (uc_id c) tr)"
  unfolding handle_group_message_def
  by (intro emits_rules)
    (simp_all add: message_order_def insert_message_sql_def last_message_sql_def numeral_eq_Suc room_events_store)

lemma message_order_simple [simp]:
  "message_order E uid []" "message_order E uid (Autocommit c b q # tr) = message_order E uid tr"
  by (simp_all add: message_order_def member_check_def affected_def commit_done_def)

lemma handle_parsed_emits: "emits (handle_parsed E c jv) (\<lambda>r tr. message_order E (uc_id c) tr)"
  unfolding handle_parsed_def
  by (intro emits_if emits_lift_then emits_raise emits_ret emits_mono [OF handle_private_message_emits]
      emits_mono [OF handle_group_message_emits]) simp_all

lemma handle_message_emits: "emits (handle_message E msg c) (\<lambda>r tr. message_order E (uc_id c) tr)"
  unfolding handle_message_def
proof (rule emits_scope)
  show "emits (andthen (begin_transaction (env_mysql E)) (\<lambda>_. try_catch
      (andthen (lift (of_sum (env_parse E msg))) (handle_parsed E c)) (\<lambda>e. rollback (env_mysql E))))
    (\<lambda>r tr. message_order E (uc_id c) tr)"
  proof (rule emits_begin_then)
    fix conn x
    have "emits (andthen (lift (of_sum (env_parse E msg))) (handle_parsed E c)) (\<lambda>r tr. message_order E (uc_id c) tr)"
      by (intro emits_lift_then handle_parsed_emits) simp
    then show "emits (try_catch (andthen (lift (of_sum (env_parse E msg))) (handle_parsed E c)) (\<lambda>e. rollback (env_mysql E)))
      (\<lambda>r tr. message_order E (uc_id c) (Autocommit conn False (Inr x) # tr))"
      by (rule emits_try) (auto intro!: emits_mono [OF emits_transaction(3)] message_order_more)
  qed simp
qed (auto simp: closing_def intro!: message_order_more)

text \<open>
  C7: only members write: in every run of \<open>handle_message\<close> the first statement that changes
  data comes after a query that found the sender in the room, and every such statement
  stores a message of that sender in that same room or makes it the room's last one.
\<close>

theorem messages_only_from_members:
  "\<exists>tr room. db_log (snd (handle_message E msg c s)) = db_log s @ tr \<and>
     precedes (member_check (uc_id c) room) is_update tr \<and>
     list_all (\<lambda>e. is_update e = stores (uc_id c) room e) tr"
  using emits_run [OF handle_message_emits, of E msg c s] by (auto simp: message_order_def)

text \<open>
  C9: nothing is delivered that is not stored: other than the refusal, a message goes to a
  session only after a successful commit, and a commit comes after the insertion of the
  message and the update of the room each changed one row.
\<close>

theorem messages_delivered_after_commit:
  "\<exists>tr. db_log (snd (handle_message E msg c s)) = db_log s @ tr \<and>
     precedes commit_done (delivers E) tr \<and>
     precedes (affected insert_message_sql (\<lambda>n. n = 1)) is_commit tr \<and>
     precedes (affected last_message_sql (\<lambda>n. n = 1)) is_commit tr"
  using emits_run [OF handle_message_emits, of E msg c s] by (auto simp: message_order_def)

text \<open>
  A private message goes to the user the client names: once its rows are stored and committed, the
  text is posted to that user's session and the confirmation to the sender's. No query asks whether
  the named user belongs to the room.
\<close>

lemma private_message_to_named_user:
  assumes "query E membership_sql [P_u64 (cpm_room_id m), P_u64 (uc_id c)] s = (Ret rows, s1)" "rows \<noteq> []"
    "sf_next E s1 = (Ret i, s2)"
    "update E insert_message_sql [P_u64 i, P_u64 (cpm_room_id m), P_u64 (uc_id c), P_str (cpm_content m)] s2 = (Ret 1, s3)"
    "update E last_message_sql [P_u64 i, P_u64 (cpm_room_id m)] s3 = (Ret 1, s4)" "commit (env_mysql E) s4 = (Ret (), s5)"
    "online s5 (cpm_other_user_id m) = Some h" "online s5 (uc_id c) = Some g"
  shows "\<exists>t. handle_private_message E c m s = (Ret (), t) \<and> db_log t = db_log s5 @
    [Post h (env_serialize E (server_resp_msg_json private_msg_to_send_json \<lparr>srm_type = PMsgToSend,
        srm_data = \<lparr>pms_private_room_id = cpm_room_id m, pms_content = cpm_content m\<rparr>\<rparr>)), Post g (info_text E MsgSentInfo)]"
proof -
  have "online (s5\<lparr>sys_sessions := (sys_sessions s5)(u \<mapsto> k), db_log := l\<rparr>) = online s5" if "online s5 u = Some k" for u k l
    using that by (intro ext) (auto simp: online_def split: option.splits if_splits)
  with assms show ?thesis by (simp add: handle_private_message_def andthen_def write_to_run)
qed


end
