(* ===== verification/HandlerLimits.thy ===== *)
theory HandlerLimits
  imports HandlerSafety
begin

text \<open>
  Where the handlers stop short of a reply, and what holds of the replies they give: the
  connection pool after a handler, the second connection a group message needs, what a
  successful login rests on, exceptions and undefined behaviour that leave the dispatcher, and
  the files the asset handler serves.
\<close>

section \<open>Connections\<close>

text \<open>
  While connections stay alive, a handler gives back what it took: however it ends, by a
  reply or by an exception, there are as many permits and as many queued connections as before
  the request, and no scope is left open.
\<close>

theorem handle_request_returns_connections:
  assumes "healthy (env_mysql E)" "pool_ok s" "handle_request E req s = (r, t)" "ends r"
  shows "sp_smph (db_pool t) = sp_smph (db_pool s) \<and>
    length (sp_queue (db_pool t)) = length (sp_queue (db_pool s)) \<and> db_conns t = db_conns s"
  using balanced_handle_request [OF assms(1), of req] assms by (auto simp: balanced_def same_pool_def)

text \<open>A login request, and a server that reads its body.\<close>

definition login_req :: http_request where
  "login_req = \<lparr>rq_method = Post_verb, rq_target = ''/api/login'', rq_version = 11,
     rq_keep_alive = True, rq_authorization = None, rq_body = ''x''\<rparr>"

definition login_env :: "unit mysql \<Rightarrow> unit env" where
  "login_env M = (demo_env M)\<lparr>env_parse := (\<lambda>b. Inr (JObj [(''username'', JStr ''bob''), (''password'', JStr ''pw'')]))\<rparr>"

lemma login_env_simps [simp]:
  "env_mysql (login_env M) = M" "env_parse (login_env M) b = Inr (JObj [(''username'', JStr ''bob''), (''password'', JStr ''pw'')])"
  "env_db (login_env M) = env_db (demo_env M)" "env_pwverify (login_env M) = (\<lambda>h p. h = rev p)"
  "env_now (login_env M) = (\<lambda>w. (0, w))" "env_jwt_sign (login_env M) = (\<lambda>ty p k. k)"
  "env_server (login_env M) = env_server (demo_env M)"
  by (simp_all add: login_env_def demo_env_def)

lemma login_decoded [simp]:
  "to_login_request (JObj [(''username'', JStr ''bob''), (''password'', JStr ''pw'')]) =
     Ret \<lparr>lreq_username = ''bob'', lreq_password = ''pw''\<rparr>"
  by (simp add: to_login_request_def json_simps)

lemma handle_request_returns_connections_witness:
  "sp_smph (db_pool (snd (handle_request (login_env (live_mysql (\<lambda>q. []) (\<lambda>q. 0))) login_req demo_sys))) = Some 1"
proof -
  let ?E = "login_env (live_mysql (\<lambda>q. []) (\<lambda>q. 0))"
  obtain r t where run: "handle_request ?E login_req demo_sys = (r, t)" "ends r"
    by (simp add: handle_request_def handle_login_def login_body_def login_req_def run_defs live_mysql_def demo_sys_def
        make_req_context_def parse_body_def)
  have "pool_ok demo_sys" by (simp add: pool_ok_def demo_sys_def)
  then show ?thesis
    using handle_request_returns_connections [OF _ _ run] run(1) by (simp add: demo_sys_def live_healthy)
qed

text \<open>
  With no permit left, a program can no longer take a connection: it blocks, or it ends without
  a commit.
\<close>

definition solo :: "'w sys \<Rightarrow> bool" where
  "solo s \<longleftrightarrow> sp_smph (db_pool s) = Some 0 \<and> sp_queue (db_pool s) = []"

definition stuck_or_uncommitted :: "('w sys, 'a) prog \<Rightarrow> bool" where
  "stuck_or_uncommitted m \<longleftrightarrow> (\<forall>s. solo s \<longrightarrow>
     (\<exists>tr. db_log (snd (m s)) = db_log s @ tr \<and> (fst (m s) = Hang \<or> \<not> committed tr)))"

definition no_commit :: "('w sys, 'a) prog \<Rightarrow> bool" where
  "no_commit m \<longleftrightarrow> emits m (\<lambda>r tr. \<not> committed tr)"

lemma no_commit_steps:
  "no_commit (query E sql ps)" "no_commit (update E sql ps)" "no_commit (begin_transaction M)"
  "no_commit (rollback M)" "no_commit (sf_next E)" "no_commit (write_to u msg)" "no_commit (lift v)"
  "no_commit (ret x)" "no_commit (raise e)"
proof -
  show "no_commit (query E sql ps)" unfolding no_commit_def by (rule emits_mono [OF emits_query]) auto
  show "no_commit (update E sql ps)" unfolding no_commit_def by (rule emits_mono [OF emits_update]) auto
  show "no_commit (begin_transaction M)" unfolding no_commit_def by (rule emits_mono [OF emits_transaction(1)]) auto
  show "no_commit (rollback M)" unfolding no_commit_def by (rule emits_mono [OF emits_transaction(3)]) auto
  show "no_commit (write_to u msg)" unfolding no_commit_def by (rule emits_mono [OF emits_write_to]) auto
  show "no_commit (sf_next E)" unfolding no_commit_def emits_def by (auto intro!: wp_sf_next)
qed (simp_all add: no_commit_def emits_def wp_simps)

lemma solo_ok: "solo s \<Longrightarrow> pool_ok s"
  by (simp add: solo_def pool_ok_def)

lemma solo_same: "solo s \<Longrightarrow> same_pool s t \<Longrightarrow> solo t"
  by (auto simp: solo_def same_pool_def)

lemma no_commit_stuck: "no_commit m \<Longrightarrow> stuck_or_uncommitted m"
  unfolding no_commit_def stuck_or_uncommitted_def by (blast dest: emits_run)

lemma stuck_if:
  "stuck_or_uncommitted m \<Longrightarrow> stuck_or_uncommitted n \<Longrightarrow> stuck_or_uncommitted (if b then m else n)"
  by simp

text \<open>A step that commits nothing, then the rest.\<close>

lemma stuck_then:
  assumes "no_commit m" "balanced m" "\<And>x. stuck_or_uncommitted (f x)"
  shows "stuck_or_uncommitted (andthen m f)"
  unfolding stuck_or_uncommitted_def
proof (intro allI impI)
  fix s :: "'a sys" assume solo: "solo s"
  obtain q u where run: "m s = (q, u)" by (cases "m s")
  obtain tr where tr: "db_log u = db_log s @ tr" "\<not> committed tr"
    using emitsD [OF assms(1) [unfolded no_commit_def] run] by blast
  show "\<exists>tr. db_log (snd (andthen m f s)) = db_log s @ tr \<and> (fst (andthen m f s) = Hang \<or> \<not> committed tr)"
  proof (cases q)
    case (Ret x)
    have "same_pool s u" using assms(2) run solo_ok [OF solo] Ret by (auto simp: balanced_def)
    with assms(3) [of x] solo_same [OF solo] obtain tr' where
      "db_log (snd (f x u)) = db_log u @ tr'" "fst (f x u) = Hang \<or> \<not> committed tr'"
      unfolding stuck_or_uncommitted_def by blast
    with run Ret tr show ?thesis by (auto simp: andthen_def)
  qed (use run tr in \<open>auto simp: andthen_def\<close>)
qed

text \<open>The commit, when what follows it needs a connection.\<close>

lemma stuck_commit:
  assumes "\<And>s. solo s \<Longrightarrow> \<exists>tr. db_log (snd (f () s)) = db_log s @ tr \<and> fst (f () s) = Hang"
  shows "stuck_or_uncommitted (andthen (commit M) f)"
  unfolding stuck_or_uncommitted_def
proof (intro allI impI)
  fix s :: "'a sys" assume solo: "solo s"
  obtain q u where run: "commit M s = (q, u)" by (cases "commit M s")
  obtain c r where u: "db_log u = db_log s @ [Commit c r]" "q = of_sum r"
    using emitsD [OF emits_transaction(2) run] by auto
  have pool: "db_pool u = db_pool s"
    using run by (auto simp: commit_def andthen_def top_conn_def gets_def db_call_def split: prod.splits)
  show "\<exists>tr. db_log (snd (andthen (commit M) f s)) = db_log s @ tr \<and>
      (fst (andthen (commit M) f s) = Hang \<or> \<not> committed tr)"
  proof (cases r)
    case (Inr x)
    from solo pool have "solo u" by (simp add: solo_def)
    from assms [OF this] u Inr run show ?thesis by (auto simp: andthen_def)
  qed (use run u in \<open>auto simp: andthen_def\<close>)
qed

lemma stuck_try:
  assumes "stuck_or_uncommitted m" "\<And>e. no_commit (h e)"
  shows "stuck_or_uncommitted (try_catch m h)"
  unfolding stuck_or_uncommitted_def
proof (intro allI impI)
  fix s :: "'a sys" assume solo: "solo s"
  obtain q u where run: "m s = (q, u)" by (cases "m s")
  obtain tr where tr: "db_log u = db_log s @ tr" "q = Hang \<or> \<not> committed tr"
    using assms(1) solo run unfolding stuck_or_uncommitted_def by (metis fst_conv snd_conv)
  show "\<exists>tr. db_log (snd (try_catch m h s)) = db_log s @ tr \<and> (fst (try_catch m h s) = Hang \<or> \<not> committed tr)"
  proof (cases q)
    case (Throw e)
    from emits_run [OF assms(2) [of e, unfolded no_commit_def], of u] run Throw tr
    show ?thesis by (auto simp: try_catch_def)
  qed (use run tr in \<open>auto simp: try_catch_def\<close>)
qed

lemma write_to_room_solo:
  "solo s \<Longrightarrow> write_to_room E room msg s = (Hang, s)"
  by (simp add: write_to_room_def with_conn_def raii_ctor_def get_conn_def andthen_def on_pool_def
      sem_acquire_def solo_def)

lemma group_message_stuck:
  assumes "healthy (env_mysql E)"
  shows "stuck_or_uncommitted (handle_group_message E c m)"
proof -
  have q: "balanced (query E sql ps)" "balanced (update E sql ps)" for sql ps
    using assms by (auto intro: balanced_intros)
  have fin: "stuck_or_uncommitted (raise e)" "stuck_or_uncommitted (write_to u msg)" for e u msg
    by (intro no_commit_stuck no_commit_steps)+
  have final: "stuck_or_uncommitted (andthen (commit (env_mysql E)) (\<lambda>_. write_to_room E room msg))" for room msg
    by (rule stuck_commit) (simp add: write_to_room_solo)
  show ?thesis
    unfolding handle_group_message_def
    by (intro final stuck_then no_commit_steps q balanced_intros stuck_if fin)
qed
definition is_group_message :: "json \<Rightarrow> bool" where
  "is_group_message jv \<longleftrightarrow> (\<exists>obj. jv = JObj obj \<and> map_of obj ''type'' = Some (JStr ''group_message''))"

lemma lift_Ret_then: "andthen (lift (Ret x)) f = f x"
  by (rule ext) (simp add: andthen_def lift_def)

lemma group_parsed_stuck:
  assumes "healthy (env_mysql E)" "is_group_message jv"
  shows "stuck_or_uncommitted (handle_parsed E c jv)"
proof -
  from assms(2) obtain obj where obj: "jv = JObj obj" "map_of obj ''type'' = Some (JStr ''group_message'')"
    by (auto simp: is_group_message_def)
  have "stuck_or_uncommitted (andthen (lift v) (handle_group_message E c))" for v
    by (intro stuck_then no_commit_steps balanced_plain group_message_stuck assms(1))
  then show ?thesis
    by (simp add: handle_parsed_def obj json_simps is_object_def is_string_def lift_Ret_then c_str_def)
qed

text \<open>
  A group message needs a second connection while its handler holds the first: started when
  one permit is left, with live connections and nobody else returning one, the handler of a
  group message blocks for ever after its commit; if it ends at all, it committed nothing.
\<close>

theorem group_message_blocks_on_last_connection:
  assumes "healthy (env_mysql E)" "pool_ok s" "sp_smph (db_pool s) = Some 1"
    "env_parse E msg = Inr jv" "is_group_message jv"
  shows "\<exists>tr. db_log (snd (handle_message E msg c s)) = db_log s @ tr \<and>
    (fst (handle_message E msg c s) = Hang \<or> \<not> committed tr)"
proof -
  let ?M = "env_mysql E"
  let ?body = "andthen (begin_transaction ?M) (\<lambda>_. try_catch
    (andthen (lift (of_sum (env_parse E msg))) (handle_parsed E c)) (\<lambda>e. rollback ?M))"
  obtain k ks where q: "sp_queue (db_pool s) = k # ks" "sp_smph (db_pool s) = Some (Suc 0)" "ks = []"
    using assms(2,3) by (cases "sp_queue (db_pool s)") (auto simp: pool_ok_def)
  let ?u = "s\<lparr>db_pool := (db_pool s)\<lparr>sp_smph := Some 0, sp_queue := ks\<rparr>,
     db_world := snd (my_valid ?M k (db_world s)), db_conns := k # db_conns s\<rparr>"
  obtain r v where body: "?body ?u = (r, v)" by (cases "?body ?u")
  have "stuck_or_uncommitted ?body"
    unfolding assms(4) of_sum.simps lift_Ret_then
    by (intro stuck_then stuck_try no_commit_steps balanced_intros group_parsed_stuck assms(1,5))
  then obtain tr where tr: "db_log v = db_log s @ tr" "r = Hang \<or> \<not> committed tr"
    using body q(3) unfolding stuck_or_uncommitted_def solo_def by (force dest: spec [of _ ?u])
  have run: "handle_message E msg c s = with_dtor ?body (raii_dtor ?M) ?u"
    by (simp add: handle_message_def with_conn_def andthen_def [of "raii_ctor _ _"] healthy_ctor [OF assms(1) q(2,1)])
  show ?thesis
  proof (cases "ends r")
    case True
    obtain d t where dtor: "raii_dtor ?M v = (d, t)" by (cases "raii_dtor ?M v")
    from closesD [OF closes_dtor this] obtain evs where "closing evs" "db_log t = db_log v @ evs" by auto
    with run body tr True dtor show ?thesis
      by (cases d) (auto simp: with_dtor_def ends_def)
  qed (use run body tr in \<open>cases r; auto simp: with_dtor_def\<close>)
qed


definition group_env :: "unit env" where
  "group_env = (demo_env (live_mysql (\<lambda>q. [member_row 7]) (\<lambda>q. 1)))\<lparr>env_parse := (\<lambda>b. Inr (JObj
     [(''type'', JStr ''group_message''), (''data'', JObj [(''room_id'', JStr ''5''), (''content'', JStr ''hi'')])]))\<rparr>"

lemma group_message_blocks_on_last_connection_witness:
  "fst (handle_message group_env ''m'' \<lparr>uc_id = 7, uc_username = ''bob''\<rparr> demo_sys) = Hang"
proof -
  let ?c = "\<lparr>uc_id = 7, uc_username = ''bob''\<rparr>"
  have "to_string 5 = ''5''" by code_simp
  then have id: "stoull ''5'' = Ret 5" using stoull_to_string [of 5] by simp
  let ?sf = "\<lparr>sf_service_id = 1, sf_sequence_id = 0, sf_last_timestamp = 1, sf_custom_epoch = 1, sf_ticks = 0\<rparr>"
  obtain x sf where sf: "next_id (\<lambda>n. of_nat n + 100) ?sf = (Ret x, sf)"
    by (simp add: sf_unfold Let_def)
  have "\<exists>tr. db_log (snd (handle_message group_env ''m'' ?c demo_sys)) = tr \<and> committed tr"
    using sf
    by (simp add: handle_message_def handle_parsed_def handle_group_message_def group_env_def to_client_group_msg_def
        json_simps is_object_def is_string_def c_str_def run_defs demo_defs id write_to_room_solo solo_def)
  moreover have "healthy (env_mysql group_env)" "pool_ok demo_sys" "sp_smph (db_pool demo_sys) = Some 1"
    "db_log demo_sys = []"
    by (simp_all add: group_env_def demo_env_def demo_sys_def live_healthy pool_ok_def)
  moreover have "\<exists>jv. env_parse group_env ''m'' = Inr jv \<and> is_group_message jv"
    by (simp add: group_env_def is_group_message_def)
  ultimately show ?thesis
    using group_message_blocks_on_last_connection [where E = group_env and s = demo_sys and msg = "''m''" and c = ?c]
    by auto
qed

section \<open>Logins\<close>

text \<open>What a reply 200 of \<open>handle_login\<close> rests on.\<close>

definition login_ok :: "'w env \<Rightarrow> http_request \<Rightarrow> response \<Rightarrow> event list \<Rightarrow> bool" where
  "login_ok E req resp tr \<longleftrightarrow> (\<exists>jv lr c row rows h u tok.
     env_parse E (rq_body req) = Inr jv \<and> to_login_request jv = Ret lr \<and>
     tr = [Query c (''SELECT id, password_hash, nickname, email, avatar_url, created_at FROM '' @
       ''users WHERE username = ?'') [(1, P_str (lreq_username lr))] (Inr (row # rows))] \<and>
     row_str row ''password_hash'' = Inr h \<and> env_pwverify E h (lreq_password lr) \<and>
     user_of_row (lreq_username lr) row = Ret u \<and>
     rs_body resp = Text_body (env_serialize E (api_response_json login_resp_json
       \<lparr>ar_code = Success, ar_message = ''Login successful'', ar_data = \<lparr>lresp_token = tok, lresp_user = u\<rparr>\<rparr>)))"

definition login_reply :: "'w env \<Rightarrow> http_request \<Rightarrow> response outcome \<Rightarrow> event list \<Rightarrow> bool" where
  "login_reply E req r tr \<longleftrightarrow> (\<forall>resp. r = Ret resp \<longrightarrow> rs_status resp = 200 \<longrightarrow>
     (\<exists>tr' evs. tr = tr' @ evs \<and> closing evs \<and> login_ok E req resp tr'))"

lemma closing_nil [simp]: "closing []"
  by (simp add: closing_def)

lemma login_reply_simps [simp]:
  "fails r \<Longrightarrow> login_reply E req r tr" "rs_status resp \<noteq> 200 \<Longrightarrow> login_reply E req (Ret resp) tr"
  "login_ok E req resp tr \<Longrightarrow> login_reply E req (Ret resp) tr"
proof -
  show "fails r \<Longrightarrow> login_reply E req r tr" by (auto simp: login_reply_def)
  show "rs_status resp \<noteq> 200 \<Longrightarrow> login_reply E req (Ret resp) tr" by (auto simp: login_reply_def)
  show "login_reply E req (Ret resp) tr" if "login_ok E req resp tr"
    using that closing_nil unfolding login_reply_def by (metis append_Nil2 outcome.inject(1))
qed

lemma login_body_emits:
  assumes "env_parse E (rq_body req) = Inr jv" "to_login_request jv = Ret lr"
  shows "emits (login_body E req lr) (\<lambda>r tr. \<forall>resp. r = Ret resp \<longrightarrow> rs_status resp = 200 \<longrightarrow> login_ok E req resp tr)"
  unfolding login_body_def
  by (intro emits_rules)
    (use assms in \<open>auto simp: fails_def create_json_response_def ok_response_def login_ok_def verify_password_def\<close>)

lemma handle_login_emits: "emits (handle_login E req) (login_reply E req)"
  unfolding handle_login_def
proof (intro emits_if emits_sum emits_lift_then emits_ret)
  fix jv lr
  assume "env_parse E (rq_body req) = Inr jv" "to_login_request jv = Ret lr"
  from login_body_emits [OF this] show "emits (conn_scope E (login_body E req lr)) (login_reply E req)"
    by (rule emits_scope) (auto simp: login_reply_def)
qed (simp_all add: bad_request_def create_json_response_def)

text \<open>
  C11: a login succeeds only with the password: a reply 200 means that the one query, by the
  name in the body, found a user whose stored hash the given password verifies against, and
  the reply carries that user's row.
\<close>

theorem login_needs_password:
  assumes "handle_login E req s = (Ret resp, t)" "rs_status resp = 200"
  shows "\<exists>tr evs. db_log t = db_log s @ tr @ evs \<and> closing evs \<and> login_ok E req resp tr"
  using emitsD [OF handle_login_emits assms(1)] assms(2) by (auto simp: login_reply_def)

definition bob_row :: row where
  "bob_row = \<lparr>row_int = (\<lambda>l. Inl (SQLException ''type'')), row_u64 = (\<lambda>l. Inr 7),
     row_str = (\<lambda>l. Inr (if l = ''password_hash'' then ''wp'' else ''x''))\<rparr>"

lemma login_needs_password_witness:
  "\<exists>resp t tr. handle_login (login_env (live_mysql (\<lambda>q. [bob_row]) (\<lambda>q. 0))) login_req demo_sys = (Ret resp, t) \<and>
     login_ok (login_env (live_mysql (\<lambda>q. [bob_row]) (\<lambda>q. 0))) login_req resp tr"
proof -
  let ?E = "login_env (live_mysql (\<lambda>q. [bob_row]) (\<lambda>q. 0))"
  obtain resp t where run: "handle_login ?E login_req demo_sys = (Ret resp, t)" "rs_status resp = 200"
    by (simp add: handle_login_def login_body_def login_req_def run_defs live_mysql_def demo_sys_def
        bob_row_def user_of_row_def verify_password_def generate_login_token_def ok_response_def
        create_json_response_def)
  from login_needs_password [OF run] run(1) show ?thesis by blast
qed

section \<open>Requests that end the process or have no defined outcome\<close>

text \<open>
  A token that cannot be read, or a body that is not JSON, throws out of
  \<open>handle_request\<close> before any handler runs: nothing was sent, and no database call was made.
\<close>

lemma malformed_request_escapes:
  assumes "(\<exists>tok. rq_authorization req = Some tok \<and> extract_user_claims E tok = Throw e) \<or>
    (rq_authorization req = None \<and> rq_body req \<noteq> [] \<and> env_parse E (rq_body req) = Inl e)"
  shows "handle_request E req s = (Throw e, s)"
  using assms by (auto simp: handle_request_def make_req_context_def parse_body_def andthen_def lift_def)

text \<open>
  A request for a room without a verb, with a method other than DELETE, runs off the end
  of \<open>handle_chat_room\<close>: undefined behaviour for every id, from a request that needs no token.
\<close>

theorem room_request_undefined:
  assumes "rq_method req \<noteq> Delete" "rq_target req = ''/api/rooms/'' @ to_string i"
    "rq_authorization req = None" "rq_body req = []"
  shows "handle_request E req s = (Undef, s)"
proof -
  have "extract_target_param (rq_target req) 2 = to_string i" "extract_target_param (rq_target req) 3 = []"
    unfolding assms(2) extract_target_param_nth using room_target_segments_short [OF to_string_no_slash, of i]
    by simp_all
  moreover have "starts_with (rq_target req) ''/api/rooms/''" by (simp add: assms(2))
  moreover have "rq_target req \<notin> {''/api/login'', ''/api/register'', ''/api/group_room'', ''/api/private_room''}"
    by (simp add: assms(2))
  ultimately show ?thesis using assms
    by (simp add: handle_request_def make_req_context_def handle_chat_room_def try_catch_def andthen_def lift_def
        undef_def)
qed

lemma room_request_undefined_witness:
  "handle_request bob_env \<lparr>rq_method = Get, rq_target = ''/api/rooms/42'', rq_version = 11, rq_keep_alive = True,
     rq_authorization = None, rq_body = []\<rparr> demo_sys = (Undef, demo_sys)"
proof -
  have "to_string 42 = ''42''" by code_simp
  then show ?thesis by (intro room_request_undefined [of _ 42]) simp_all
qed

text \<open>
  Listing one's rooms never succeeds: a GET of \<open>/users/me/rooms\<close> that is answered at all
  is answered with 500, whatever the database says.
\<close>

theorem query_rooms_never_lists:
  assumes "cx_method ctx = Get" "query_rooms E ctx s = (Ret resp, t)"
  shows "rs_status resp = 500"
proof -
  let ?q = "conn_scope E (case cx_user_claims_opt ctx of None \<Rightarrow> undef
    | Some claims \<Rightarrow> query E ''SELECT room_id FROM room_members WHERE user_id = ?'' [P_u64 (uc_id claims)])"
  have "andthen ?q (\<lambda>_. undef) u \<noteq> (Ret x, v)" for u v and x :: response
    by (auto simp: andthen_eq_Ret undef_def)
  with assms show ?thesis
    by (auto simp: query_rooms_def try_catch_def error_resp_ctx_def create_json_response_def ret_def
        split: prod.splits outcome.splits)
qed


lemma query_rooms_never_lists_witness:
  "\<exists>resp t. query_rooms (demo_env dead_mysql) \<lparr>cx_version = 11, cx_keep_alive = True, cx_method = Get,
     cx_target = ''/users/me/rooms'', cx_jv_opt = None,
     cx_user_claims_opt = Some \<lparr>uc_id = 7, uc_username = ''bob''\<rparr>\<rparr> demo_sys = (Ret resp, t) \<and> rs_status resp = 500"
proof -
  let ?ctx = "\<lparr>cx_version = 11, cx_keep_alive = True, cx_method = Get,
     cx_target = ''/users/me/rooms'', cx_jv_opt = None,
     cx_user_claims_opt = Some \<lparr>uc_id = 7, uc_username = ''bob''\<rparr>\<rparr>"
  obtain resp t where run: "query_rooms (demo_env dead_mysql) ?ctx demo_sys = (Ret resp, t)"
    by (simp add: query_rooms_def run_defs demo_defs dead_mysql_def)
  from query_rooms_never_lists [OF _ run] run show ?thesis by auto
qed

section \<open>Assets\<close>

text \<open>
  A file is served only for a GET whose target continues after its first eight characters
  with a nonempty path without \<open>..\<close>; the file is that path below the document root, unless
  the path is absolute, and its type is that of the path's extension.
\<close>

theorem asset_reply:
  assumes "handle_assets E ctx s = (Ret resp, t)" "rs_body resp = File_body path n"
  shows "cx_method ctx = Get \<and> rs_status resp = 200 \<and>
    (\<exists>asset. cx_target ctx = take 8 (cx_target ctx) @ asset \<and> asset \<noteq> [] \<and> \<not> contains_sub asset ''..'' \<and>
      path = path_append (sv_doc_root (env_server E)) asset \<and>
      rs_content_type resp = mime_type (sv_doc_root (env_server E) @ asset) \<and>
      rs_content_length resp = Some (to_string (of_nat n)))"
proof -
  let ?a = "drop 8 (cx_target ctx)"
  have err: "rs_body (error_resp_ctx E ctx code msg) \<noteq> File_body path n" for code msg
    by (simp add: error_resp_ctx_def create_json_response_def)
  have "cx_method ctx = Get" "\<not> length (cx_target ctx) < 8" "?a \<noteq> []" "\<not> contains_sub ?a ''..''"
    using assms err by (auto simp: handle_assets_def try_catch_def ret_def undef_def Let_def numeral_eq_Suc split: if_splits)
  with assms err show ?thesis
    by (intro conjI exI [of _ ?a])
      (auto simp: handle_assets_def try_catch_def ret_def raise_def Let_def andthen_def outside_def numeral_eq_Suc
        split: if_splits prod.splits open_result.splits)
qed

text \<open>
  An absolute path escapes the document root: for \<open>/assets//etc/passwd\<close> and every other
  target of that form the file served is the absolute path itself, whatever the configured root.
\<close>

theorem absolute_asset_escapes_root:
  assumes "cx_method ctx = Get" "cx_target ctx = ''/assets/'' @ ''/'' @ file"
    "\<not> contains_sub (''/'' @ file) ''..''" "env_open E (''/'' @ file) (db_world s) = (Opened n, w)"
  shows "\<exists>resp t. handle_assets E ctx s = (Ret resp, t) \<and> rs_status resp = 200 \<and> rs_body resp = File_body (''/'' @ file) n"
  using assms by (simp add: handle_assets_def try_catch_def andthen_def outside_def ret_def Let_def path_append_def)

definition passwd_ctx :: req_context where
  "passwd_ctx = \<lparr>cx_version = 11, cx_keep_alive = True, cx_method = Get, cx_target = ''/assets//etc/passwd'',
     cx_jv_opt = None, cx_user_claims_opt = None\<rparr>"

lemma absolute_asset_escapes_root_witness:
  "\<exists>resp t. handle_assets (demo_env dead_mysql) passwd_ctx demo_sys = (Ret resp, t) \<and> rs_status resp = 200 \<and>
     rs_body resp = File_body ''/etc/passwd'' 3"
  using absolute_asset_escapes_root [of passwd_ctx "''etc/passwd''" "demo_env dead_mysql" demo_sys 3 "()"]
  by (simp add: passwd_ctx_def demo_env_def)

lemma asset_reply_witness:
  "\<exists>resp t asset. handle_assets (demo_env dead_mysql) passwd_ctx demo_sys = (Ret resp, t) \<and>
     ''/etc/passwd'' = path_append ''/srv/'' asset \<and> rs_content_length resp = Some (to_string 3)"
proof -
  obtain resp t where run: "handle_assets (demo_env dead_mysql) passwd_ctx demo_sys = (Ret resp, t)"
    "rs_body resp = File_body ''/etc/passwd'' 3"
    by (simp add: handle_assets_def try_catch_def andthen_def outside_def ret_def Let_def path_append_def
        passwd_ctx_def demo_env_def)
  from asset_reply [OF this] run(1) show ?thesis by (auto simp: demo_env_def)
qed

section \<open>What is not checked\<close>

text \<open>
  \<open>invite_member\<close> reads the caller's token and then does not use it: two callers whose tokens
  can be read get the same run, so anyone can add anyone to any group room.
\<close>

theorem invite_ignores_caller:
  assumes "extract_user_claims E (auth_field req) = Ret a"
    "extract_user_claims E (auth_field (req\<lparr>rq_authorization := tok\<rparr>)) = Ret b"
  shows "invite_member E (req\<lparr>rq_authorization := tok\<rparr>) room s = invite_member E req room s"
proof -
  have same: "bad_request E (req\<lparr>rq_authorization := tok\<rparr>) m = bad_request E req m"
    "error_resp E (req\<lparr>rq_authorization := tok\<rparr>) code m = error_resp E req code m"
    "ok_response E (req\<lparr>rq_authorization := tok\<rparr>) jv = ok_response E req jv"
    "parse_body E (req\<lparr>rq_authorization := tok\<rparr>) = parse_body E req" for m code jv
    by (simp_all add: bad_request_def error_resp_def ok_response_def parse_body_def)
  have known: "andthen (lift (Ret x)) f = f x" for x :: user_claims and f :: "_ \<Rightarrow> ('a sys, response) prog"
    by (simp add: andthen_def lift_def fun_eq_iff)
  show ?thesis
    using assms by (simp add: invite_member_def same known cong: if_cong list.case_cong)
qed

text \<open>
  A login whose body is JSON without the expected fields: the decoder runs outside the
  checks of \<open>handle_login\<close>, so its exception leaves the handler.
\<close>

theorem login_without_fields_escapes:
  assumes "rq_method req = Post_verb" "env_parse E (rq_body req) = Inr jv" "to_login_request jv = Throw e"
  shows "handle_login E req s = (Throw e, s)"
  using assms by (simp add: handle_login_def andthen_def lift_def)

end
