(* ===== verification/FreshIds.thy ===== *)
theory FreshIds
  imports HandlerLimits
begin

text \<open>
  The ids that handlers store: every row a handler inserts into \<open>rooms\<close>, \<open>users\<close> or \<open>messages\<close>
  has a primary key it drew from the id generator. The judgement \<open>fresh\<close> follows a handler with
  what it knows of the generator: all ids stored so far are at most \<open>k\<close>, and an id drawn and not
  yet stored may be at hand. Runs of many requests and messages then store increasing ids.
\<close>

section \<open>Stored ids\<close>

definition id_inserts :: "string set" where
  "id_inserts = {g_room_insert, p_room_insert, insert_message_sql,
     ''INSERT INTO users (id, username, password_hash, email, nickname) '' @ ''VALUES (?, ?, ?, ?, ?)''}"

definition stored_id :: "event \<Rightarrow> nat list" where
  "stored_id e = (case e of
       Update c sql ((i, P_u64 x) # b) n \<Rightarrow> if sql \<in> id_inserts then [unat x] else []
     | _ \<Rightarrow> [])"

definition stored_ids :: "event list \<Rightarrow> nat list" where
  "stored_ids tr = concat (map stored_id tr)"

lemma stored_ids_simps [simp]:
  "stored_ids [] = []" "stored_ids (e # tr) = stored_id e @ stored_ids tr"
  "stored_ids (tr @ tr') = stored_ids tr @ stored_ids tr'"
  "stored_id (Autocommit c b q) = []" "stored_id (Commit c q) = []" "stored_id (Rollback c q) = []"
  "stored_id (Query c sql bs rs) = []" "stored_id (Post h m) = []"
  "stored_id (Update c sql ((i, P_u64 x) # ps) n) = (if sql \<in> id_inserts then [unat x] else [])"
  by (simp_all add: stored_ids_def stored_id_def)

lemma stored_closing [simp]: "closing evs \<Longrightarrow> stored_ids evs = []"
  by (auto simp: closing_def)

section \<open>The judgement\<close>

definition fresh_post :: "'w env \<Rightarrow> nat \<Rightarrow> 'w sys \<Rightarrow> 'w sys \<Rightarrow> bool" where
  "fresh_post E k s t \<longleftrightarrow> sf_inv (env_clock E) (sys_sf t) \<and> sf_key (sys_sf s) \<le> sf_key (sys_sf t) \<and>
     (\<exists>tr. db_log t = db_log s @ tr \<and> sorted_wrt (<) (stored_ids tr) \<and>
       (\<forall>i \<in> set (stored_ids tr). k < i \<and> i \<le> sf_key (sys_sf t)))"

definition fresh_pre :: "'w env \<Rightarrow> nat \<Rightarrow> u64 option \<Rightarrow> 'w sys \<Rightarrow> bool" where
  "fresh_pre E k a s \<longleftrightarrow> sf_inv (env_clock E) (sys_sf s) \<and> k \<le> sf_key (sys_sf s) \<and>
     (\<forall>x. a = Some x \<longrightarrow> k < unat x \<and> unat x \<le> sf_key (sys_sf s))"

definition fresh :: "'w env \<Rightarrow> nat \<Rightarrow> u64 option \<Rightarrow> ('w sys, 'a) prog \<Rightarrow> bool" where
  "fresh E k a m \<longleftrightarrow> (\<forall>s r t. fresh_pre E k a s \<longrightarrow> m s = (r, t) \<longrightarrow> ends r \<longrightarrow> fresh_post E k s t)"

text \<open>A step that leaves the generator alone and stores no id.\<close>

definition still :: "('w sys, 'a) prog \<Rightarrow> bool" where
  "still m \<longleftrightarrow> (\<forall>s. wp m (\<lambda>r t. sys_sf t = sys_sf s \<and> (\<exists>tr. db_log t = db_log s @ tr \<and> stored_ids tr = [])) s)"

named_theorems fresh_rules "a handler step, from its continuation"

lemma stillI:
  "(\<And>s. wp m (\<lambda>r t. sys_sf t = sys_sf s \<and> (\<exists>tr. db_log t = db_log s @ tr \<and> stored_ids tr = [])) s) \<Longrightarrow> still m"
  by (simp add: still_def)

lemma still_plain [fresh_rules]:
  "still (ret x)" "still (raise e)" "still undef" "still (lift v)"
  by (auto intro!: stillI simp: wp_simps)

lemma still_query [fresh_rules]: "still (query E sql ps)"
  by (rule stillI) (auto intro!: wp_execute_query)

lemma still_update [fresh_rules]: "sql \<notin> id_inserts \<Longrightarrow> still (update E sql ps)"
  by (rule stillI) (auto intro!: wp_execute_update simp: stored_id_def split: list.splits prod.splits sql_param.splits)

lemma still_transaction [fresh_rules]:
  "still (begin_transaction M)" "still (commit M)" "still (rollback M)"
proof -
  show "still (begin_transaction M)" by (rule stillI) (auto intro!: wp_transaction(1))
  show "still (commit M)" by (rule stillI) (auto intro!: wp_transaction(2))
  show "still (rollback M)" by (rule stillI) (auto intro!: wp_transaction(3))
qed

lemma still_outside [fresh_rules]:
  "still (outside f)" "still (generate_login_token E u i)" "still (hash_password E p)"
  by (rule stillI; auto intro!: wp_intros)+

lemma still_sessions [fresh_rules]:
  "still (write_to u msg)" "still (andthen (lock_all us) (\<lambda>hs. post_all hs msg))"
  "still (add_session u h)" "still (remove_session u)"
proof -
  show "still (write_to u msg)" by (rule stillI) (auto simp: wp_def write_to_run split: option.splits)
  have "stored_ids (map (\<lambda>h. Post h msg) hs) = []" for hs by (induction hs) simp_all
  then show "still (andthen (lock_all us) (\<lambda>hs. post_all hs msg))"
    by (intro stillI) (simp add: wp_def deliver_run purge_def)
  show "still (add_session u h)" "still (remove_session u)"
    by (intro stillI; auto simp: add_session_def remove_session_def wp_simps split: option.splits)+
qed

lemma stillD:
  assumes "still m" "m s = (r, t)"
  shows "sys_sf t = sys_sf s" "\<exists>tr. db_log t = db_log s @ tr \<and> stored_ids tr = []"
  using wp_result [OF assms(1) [unfolded still_def, rule_format] assms(2)] by auto

text \<open>A run of two steps that ends: the second ran, or the first threw.\<close>

lemma andthen_ends:
  assumes "andthen m f s = (r, t)" "ends r"
  obtains x u where "m s = (Ret x, u)" "f x u = (r, t)" | e where "m s = (Throw e, t)" "r = Throw e"
  using assms by (auto simp: andthen_def split: prod.splits outcome.splits)

lemma try_ends:
  assumes "try_catch m h s = (r, t)" "ends r"
  obtains x where "m s = (Ret x, t)" "r = Ret x" | e u where "m s = (Throw e, u)" "h e u = (r, t)"
  using assms by (auto simp: try_catch_def split: prod.splits outcome.splits)

lemma still_andthen [fresh_rules]:
  assumes "still m" "\<And>x. still (f x)"
  shows "still (andthen m f)"
proof (rule stillI)
  fix s
  obtain q u where m: "m s = (q, u)" by (cases "m s")
  obtain tr where u: "sys_sf u = sys_sf s" "db_log u = db_log s @ tr" "stored_ids tr = []"
    using stillD [OF assms(1) m] by blast
  show "wp (andthen m f) (\<lambda>r t. sys_sf t = sys_sf s \<and> (\<exists>tr. db_log t = db_log s @ tr \<and> stored_ids tr = [])) s"
  proof (cases q)
    case (Ret x)
    obtain r t where f: "f x u = (r, t)" by (cases "f x u")
    obtain tr' where "sys_sf t = sys_sf u" "db_log t = db_log u @ tr'" "stored_ids tr' = []"
      using stillD [OF assms(2) f] by blast
    with u show ?thesis by (simp add: wp_def andthen_def m Ret f)
  qed (use u m in \<open>simp_all add: wp_def andthen_def\<close>)
qed

lemma still_option [fresh_rules]: "still m \<Longrightarrow> (\<And>x. still (f x)) \<Longrightarrow> still (case v of None \<Rightarrow> m | Some x \<Rightarrow> f x)"
  by (auto split: option.split)

section \<open>Rules\<close>

lemma fresh_post_refl: "fresh_pre E k a s \<Longrightarrow> fresh_post E k s s"
  by (auto simp: fresh_pre_def fresh_post_def)

text \<open>Steps without ids before and after a run.\<close>

lemma fresh_post_after:
  assumes "fresh_post E k s t" "sys_sf u = sys_sf t" "db_log u = db_log t @ tr" "stored_ids tr = []"
  shows "fresh_post E k s u"
proof -
  from assms(1) obtain tr' where "db_log t = db_log s @ tr'" "sorted_wrt (<) (stored_ids tr')"
    "\<forall>i \<in> set (stored_ids tr'). k < i \<and> i \<le> sf_key (sys_sf t)"
    "sf_inv (env_clock E) (sys_sf t)" "sf_key (sys_sf s) \<le> sf_key (sys_sf t)"
    unfolding fresh_post_def by blast
  with assms(2-4) show ?thesis unfolding fresh_post_def by (intro conjI exI [of _ "tr' @ tr"]) simp_all
qed

lemma fresh_post_before:
  assumes "fresh_post E k t u" "sf_key (sys_sf s) \<le> sf_key (sys_sf t)" "db_log t = db_log s @ tr" "stored_ids tr = []"
  shows "fresh_post E k s u"
proof -
  from assms(1) obtain tr' where "db_log u = db_log t @ tr'" "sorted_wrt (<) (stored_ids tr')"
    "\<forall>i \<in> set (stored_ids tr'). k < i \<and> i \<le> sf_key (sys_sf u)"
    "sf_inv (env_clock E) (sys_sf u)" "sf_key (sys_sf t) \<le> sf_key (sys_sf u)"
    unfolding fresh_post_def by blast
  with assms(2-4) show ?thesis unfolding fresh_post_def by (intro conjI exI [of _ "tr @ tr'"]) simp_all
qed

lemma freshI:
  "(\<And>s r t. fresh_pre E k a s \<Longrightarrow> m s = (r, t) \<Longrightarrow> ends r \<Longrightarrow> fresh_post E k s t) \<Longrightarrow> fresh E k a m"
  by (simp add: fresh_def)

lemma freshD: "fresh E k a m \<Longrightarrow> m s = (r, t) \<Longrightarrow> fresh_pre E k a s \<Longrightarrow> ends r \<Longrightarrow> fresh_post E k s t"
  by (simp add: fresh_def)

lemma still_post: "still m \<Longrightarrow> m s = (r, t) \<Longrightarrow> fresh_pre E k a s \<Longrightarrow> fresh_post E k s t"
  using fresh_post_after [OF fresh_post_refl] stillD by metis

lemma still_fresh: "still m \<Longrightarrow> fresh E k a m"
  by (rule freshI) (rule still_post)

lemma fresh_still_then:
  assumes "still m" "\<And>x. fresh E k a (f x)"
  shows "fresh E k a (andthen m f)"
proof (rule freshI)
  fix s r t assume pre: "fresh_pre E k a s" and run: "andthen m f s = (r, t)" "ends r"
  from run show "fresh_post E k s t"
  proof (cases rule: andthen_ends)
    case (1 x u)
    note u = stillD [OF assms(1) 1(1)]
    have "fresh_pre E k a u" using pre u(1) by (simp add: fresh_pre_def)
    with freshD [OF assms(2) 1(2)] run(2) u show ?thesis by (metis fresh_post_before order_refl)
  next
    case (2 e)
    with still_post [OF assms(1) _ pre] show ?thesis by blast
  qed
qed

text \<open>The generator: an id above every id stored so far is at hand.\<close>

lemma fresh_next_then:
  assumes "\<And>x. k < unat x \<Longrightarrow> fresh E k (Some x) (f x)"
  shows "fresh E k None (andthen (sf_next E) f)"
proof (rule freshI)
  fix s r t assume pre: "fresh_pre E k None s" and run: "andthen (sf_next E) f s = (r, t)" "ends r"
  then have inv: "sf_inv (env_clock E) (sys_sf s)" "k \<le> sf_key (sys_sf s)" by (auto simp: fresh_pre_def)
  have "\<not> (\<exists>e. fst (next_id (env_clock E) (sys_sf s)) = Throw e)"
    using inv(1) unfolding next_id_throws_iff by (auto simp: sf_inv_def)
  with run show "fresh_post E k s t"
  proof (cases rule: andthen_ends)
    case (1 x u)
    then obtain sf where sf: "next_id (env_clock E) (sys_sf s) = (Ret x, sf)" "u = s\<lparr>sys_sf := sf\<rparr>"
      by (auto simp: sf_next_def on_sf_def split: prod.splits)
    note g = sf.gen_good [OF inv(1) sf(1)] sf.gen_key [OF inv(1) sf(1)] sf.gen_value [OF inv(1) sf(1)]
    have "fresh_pre E k (Some x) u" using g inv(2) sf(2) by (simp add: fresh_pre_def)
    moreover have "k < unat x" using g inv(2) by simp
    ultimately have "fresh_post E k u t" using freshD [OF assms 1(2)] run(2) by blast
    then show ?thesis by (rule fresh_post_before [where tr = "[]"]) (use g sf(2) in simp_all)
  next
    case (2 e)
    then show ?thesis using \<open>\<not> _\<close> by (auto simp: sf_next_def on_sf_def split: prod.splits)
  qed
qed

text \<open>Storing it: from then on ids must be above it.\<close>

lemma fresh_store_then:
  assumes "\<And>n. fresh E (unat x) None (f n)"
  shows "fresh E k (Some x) (andthen (update E sql (P_u64 x # ps)) f)"
proof (rule freshI)
  fix s r t assume pre: "fresh_pre E k (Some x) s" and run: "andthen (update E sql (P_u64 x # ps)) f s = (r, t)" "ends r"
  let ?ids = "\<lambda>tr. stored_ids tr = [] \<or> stored_ids tr = [unat x]"
  have step: "sys_sf u = sys_sf s \<and> (\<exists>tr. db_log u = db_log s @ tr \<and> ?ids tr)"
    if "update E sql (P_u64 x # ps) s = (q, u)" for q u
    by (rule wp_result [OF wp_execute_update that]) auto
  have x: "k < unat x" "unat x \<le> sf_key (sys_sf s)" "sf_inv (env_clock E) (sys_sf s)"
    using pre by (auto simp: fresh_pre_def)
  from run show "fresh_post E k s t"
  proof (cases rule: andthen_ends)
    case (1 n u)
    from step [OF 1(1)] obtain tr where u: "sys_sf u = sys_sf s" "db_log u = db_log s @ tr" "?ids tr" by blast
    have "fresh_pre E (unat x) None u" using x u(1) by (simp add: fresh_pre_def)
    with freshD [OF assms 1(2)] run(2) have "fresh_post E (unat x) u t" by blast
    then obtain tr' where tr': "db_log t = db_log u @ tr'" "sorted_wrt (<) (stored_ids tr')"
      "\<forall>i \<in> set (stored_ids tr'). unat x < i \<and> i \<le> sf_key (sys_sf t)"
      "sf_inv (env_clock E) (sys_sf t)" "sf_key (sys_sf u) \<le> sf_key (sys_sf t)"
      unfolding fresh_post_def by blast
    with u x show ?thesis unfolding fresh_post_def
      by (intro conjI exI [of _ "tr @ tr'"]) auto
  next
    case (2 e)
    from step [OF 2(1)] x show ?thesis unfolding fresh_post_def by auto
  qed
qed

lemma fresh_try [fresh_rules]:
  assumes "fresh E k a m" "\<And>e. still (h e)"
  shows "fresh E k a (try_catch m h)"
proof (rule freshI)
  fix s r t assume pre: "fresh_pre E k a s" and run: "try_catch m h s = (r, t)" "ends r"
  from run show "fresh_post E k s t"
  proof (cases rule: try_ends)
    case (1 x)
    with freshD [OF assms(1) _ pre] show ?thesis by simp
  next
    case (2 e u)
    with freshD [OF assms(1) _ pre] have "fresh_post E k s u" by simp
    with stillD [OF assms(2) 2(2)] show ?thesis by (metis fresh_post_after)
  qed
qed

lemma fresh_scope [fresh_rules]:
  assumes "fresh E k a body"
  shows "fresh E k a (conn_scope E body)"
proof (rule freshI)
  fix s r t assume pre: "fresh_pre E k a s" and run: "conn_scope E body s = (r, t)" "ends r"
  have "wp (conn_scope E body) (\<lambda>r t. ends r \<longrightarrow> fresh_post E k s t) s"
  proof (rule wp_with_conn)
    fix w p cs
    let ?s = "s\<lparr>db_world := w, db_pool := p, db_conns := cs\<rparr>"
    have pre': "fresh_pre E k a ?s" using pre by (simp add: fresh_pre_def)
    show "wp body (\<lambda>r t. \<forall>r' w p cs evs. closing evs \<longrightarrow> r' = r \<or> \<not> ends r' \<longrightarrow>
        ends r' \<longrightarrow> fresh_post E k s (t\<lparr>db_world := w, db_pool := p, db_conns := cs, db_log := db_log t @ evs\<rparr>)) ?s"
    proof (rule wp_mono [OF wp_run], intro allI impI)
      fix q q' :: "'b outcome" and u w' p' cs' evs
      assume u: "q = fst (body ?s) \<and> u = snd (body ?s)" and evs: "closing evs" and q': "q' = q \<or> \<not> ends q'" "ends q'"
      then have "fresh_post E k ?s u" using freshD [OF assms _ pre', of q u] by simp
      then have "fresh_post E k s u" by (rule fresh_post_before [where tr = "[]"]) simp_all
      then show "fresh_post E k s (u\<lparr>db_world := w', db_pool := p', db_conns := cs', db_log := db_log u @ evs\<rparr>)"
        by (rule fresh_post_after [where tr = evs]) (use evs in simp_all)
    qed
  qed (rule impI, rule fresh_post_after [OF fresh_post_refl [OF pre], where tr = "[]"]; simp)
  with run show "fresh_post E k s t" by (auto dest: wp_result)
qed

lemma fresh_plain [fresh_rules]:
  "fresh E k a (ret x)" "fresh E k a (raise e)" "fresh E k a undef" "fresh E k a (write_to u msg)"
  by (intro still_fresh fresh_rules)+

lemma fresh_cases [fresh_rules]:
  "(b \<Longrightarrow> fresh E k a m) \<Longrightarrow> (\<not> b \<Longrightarrow> fresh E k a n) \<Longrightarrow> fresh E k a (if b then m else n)"
  "fresh E k a m \<Longrightarrow> (\<And>x xs. fresh E k a (f x xs)) \<Longrightarrow> fresh E k a (case l of [] \<Rightarrow> m | x # xs \<Rightarrow> f x xs)"
  "(\<And>e. fresh E k a (g e)) \<Longrightarrow> (\<And>y. fresh E k a (h y)) \<Longrightarrow> fresh E k a (case v of Inl e \<Rightarrow> g e | Inr y \<Rightarrow> h y)"
  by (auto split: list.split sum.split)

lemma fresh_options [fresh_rules]:
  "fresh E k a m \<Longrightarrow> (\<And>x. fresh E k a (f x)) \<Longrightarrow> fresh E k a (case v of None \<Rightarrow> m | Some x \<Rightarrow> f x)"
  "(\<And>n. fresh E k a (g n)) \<Longrightarrow> fresh E k a m \<Longrightarrow> (\<And>e. fresh E k a (h e)) \<Longrightarrow>
     fresh E k a (case r of Opened n \<Rightarrow> g n | NoSuchFile \<Rightarrow> m | OpenFailed e \<Rightarrow> h e)"
  by (auto split: option.split open_result.split)

section \<open>Handlers\<close>

lemma id_free [simp]:
  "''DELETE FROM room_members WHERE room_id = ?'' \<notin> id_inserts" "''DELETE FROM rooms WHERE id = ?'' \<notin> id_inserts"
  "last_message_sql \<notin> id_inserts" "''INSERT INTO room_members (room_id, user_id, role) VALUE (?, ?, ?)'' \<notin> id_inserts"
  "''INSERT INTO room_members (room_id, user_id, role) VALUES (?, ?, ?)'' \<notin> id_inserts"
  "''INSERT INTO room_members (room_id, user_id, role)VALUES (?, ?, ?), (?, ?, ?)'' \<notin> id_inserts"
  by (simp_all add: id_inserts_def g_room_insert_def p_room_insert_def insert_message_sql_def last_message_sql_def)

lemma still_scope:
  assumes "still body"
  shows "still (conn_scope E body)"
proof (rule stillI, rule wp_with_conn)
  fix s :: "'a sys" and w p cs
  let ?s = "s\<lparr>db_world := w, db_pool := p, db_conns := cs\<rparr>"
  show "wp body (\<lambda>r t. \<forall>r' w p cs evs. closing evs \<longrightarrow> r' = r \<or> \<not> ends r' \<longrightarrow>
      sys_sf (t\<lparr>db_world := w, db_pool := p, db_conns := cs, db_log := db_log t @ evs\<rparr>) = sys_sf s \<and>
      (\<exists>tr. db_log (t\<lparr>db_world := w, db_pool := p, db_conns := cs, db_log := db_log t @ evs\<rparr>) = db_log s @ tr \<and>
        stored_ids tr = [])) ?s"
    by (rule wp_mono [OF assms [unfolded still_def, rule_format]]) auto
qed auto

lemma still_write_to_room [fresh_rules]: "still (write_to_room E room msg)"
  unfolding write_to_room_def by (intro still_andthen still_scope still_query still_plain still_sessions)

text \<open>The steps in the order in which they are to be tried.\<close>

lemmas fresh_steps = fresh_next_then fresh_store_then fresh_still_then fresh_rules

lemma fresh_room_handlers:
  "fresh E k None (create_g_room E req)" "fresh E k None (create_p_room E req)"
  "fresh E k None (delete_room E req r)" "fresh E k None (invite_member E req r)"
proof -
  show "fresh E k None (create_g_room E req)"
    unfolding create_g_room_def create_g_room_body_def by (intro fresh_steps id_free)
  show "fresh E k None (create_p_room E req)"
    unfolding create_p_room_def create_p_room_body_def by (intro fresh_steps id_free)
  show "fresh E k None (delete_room E req r)"
    unfolding delete_room_def delete_room_body_def by (intro fresh_steps id_free)
  show "fresh E k None (invite_member E req r)"
    unfolding invite_member_def by (intro fresh_steps id_free)
qed

lemma fresh_user_handlers:
  "fresh E k None (handle_login E req)" "fresh E k None (handle_register E req)"
  "fresh E k None (query_rooms E ctx)" "fresh E k None (handle_assets E ctx)" "fresh E k None (handle_chat_room E req)"
proof -
  show "fresh E k None (handle_login E req)"
    unfolding handle_login_def login_body_def by (intro fresh_steps)
  show "fresh E k None (handle_register E req)"
    unfolding handle_register_def register_body_def by (intro fresh_steps)
  show "fresh E k None (query_rooms E ctx)"
    unfolding query_rooms_def by (intro fresh_steps still_scope still_fresh)
  show "fresh E k None (handle_assets E ctx)"
    unfolding handle_assets_def Let_def by (intro fresh_steps)
  show "fresh E k None (handle_chat_room E req)"
    unfolding handle_chat_room_def Let_def by (intro fresh_steps fresh_room_handlers)
qed

lemma fresh_handle_request: "fresh E k None (handle_request E req)"
  unfolding handle_request_def by (intro fresh_steps fresh_room_handlers fresh_user_handlers)

lemma fresh_handle_message: "fresh E k None (handle_message E msg c)"
  unfolding handle_message_def handle_parsed_def handle_private_message_def handle_group_message_def
  by (intro fresh_steps id_free still_fresh)

end
