(* ===== verification/ThreadPool.thy ===== *)
theory ThreadPool
  imports Prelude "HOL-Library.Multiset"
begin

text \<open>
  The worker pool, \<open>src/src/pool/thread_pool.hpp\<close> and \<open>thread_pool.cpp\<close>. The state is the
  task queue, the \<open>stop\<close> flag and where each worker thread stands: about to evaluate the
  predicate of \<open>condition.wait\<close> under the lock (\<open>Checking\<close>), asleep in it (\<open>Blocked\<close>),
  inside a task, or past its loop. The notifications a caller still has to deliver after it
  released the lock are part of the state, so that a wake-up can be late; spurious wake-ups are
  steps of their own. A task is a value; \<open>throws t\<close> says that an exception leaves it, which
  happens only to tasks without a result, since \<open>packaged_task\<close> keeps the exceptions of the
  others. Three lists record the tasks accepted, started and finished.
\<close>

section \<open>State\<close>

datatype 't worker = Checking | Blocked | Running 't | Exited

record 't pool =
  tp_tasks :: "'t list"
  tp_stop :: bool
  tp_workers :: "'t worker list"
  tp_notify_one :: nat
  tp_notify_all :: bool
  tp_dead :: bool
  tp_accepted :: "'t list"
  tp_started :: "'t list"
  tp_done :: "'t list"

text \<open>The constructor: \<open>stop(false)\<close> and one thread per unit of \<open>thread_count\<close>.\<close>

definition new_pool :: "nat \<Rightarrow> 't pool" where
  "new_pool thread_count =
     \<lparr>tp_tasks = [], tp_stop = False, tp_workers = replicate thread_count Checking,
      tp_notify_one = 0, tp_notify_all = False, tp_dead = False,
      tp_accepted = [], tp_started = [], tp_done = []\<rparr>"

text \<open>The singleton: \<open>get\<close>, \<open>init\<close>.\<close>

definition pool_get :: "('t pool option, 't pool) prog" where
  "pool_get s =
     (case s of
        None \<Rightarrow> (Throw (RuntimeError ''ThreadPool has not been initialized. Call init() first.''), s)
      | Some p \<Rightarrow> (Ret p, s))"

definition pool_init :: "nat \<Rightarrow> ('t pool option, unit) prog" where
  "pool_init thread_count s =
     (case s of
        Some p \<Rightarrow> (Throw (RuntimeError ''ThreadPool has already been initialized.''), s)
      | None \<Rightarrow> (Ret (), Some (new_pool thread_count)))"

section \<open>Operations\<close>

text \<open>\<open>addTask\<close> and \<open>addTaskCallback\<close>: the locked part; \<open>notify_one\<close> follows later.\<close>

definition add_task :: "'t \<Rightarrow> ('t pool, unit) prog" where
  "add_task t s =
     (if tp_stop s then (Throw (RuntimeError ''AddTask on a stopped ThreadPool''), s)
      else (Ret (), s\<lparr>tp_tasks := tp_tasks s @ [t], tp_accepted := tp_accepted s @ [t],
                     tp_notify_one := Suc (tp_notify_one s)\<rparr>))"

text \<open>One pass of worker \<open>i\<close> through the locked part of its loop.\<close>

definition worker_check :: "nat \<Rightarrow> 't pool \<Rightarrow> 't pool" where
  "worker_check i s =
     (if \<not> (tp_stop s \<or> tp_tasks s \<noteq> []) then s\<lparr>tp_workers := (tp_workers s)[i := Blocked]\<rparr>
      else if tp_stop s \<and> tp_tasks s = [] then s\<lparr>tp_workers := (tp_workers s)[i := Exited]\<rparr>
      else s\<lparr>tp_workers := (tp_workers s)[i := Running (hd (tp_tasks s))],
             tp_tasks := tl (tp_tasks s), tp_started := tp_started s @ [hd (tp_tasks s)]\<rparr>)"

definition wake :: "'t worker \<Rightarrow> 't worker" where
  "wake w = (case w of Blocked \<Rightarrow> Checking | _ \<Rightarrow> w)"

text \<open>The locked part of the destructor; \<open>notify_all\<close> and the joins follow.\<close>

definition pool_stop :: "'t pool \<Rightarrow> 't pool" where
  "pool_stop s = s\<lparr>tp_stop := True, tp_notify_all := True\<rparr>"

text \<open>
  The steps that need no caller: \<open>pool_work\<close> delivers notifications and runs the workers.
  \<open>pool_step\<close> adds what callers and the system do: submit, start the destructor, wake a
  waiter spuriously.
\<close>

inductive pool_work :: "('t \<Rightarrow> bool) \<Rightarrow> 't pool \<Rightarrow> 't pool \<Rightarrow> bool" for throws where
  notify: "\<not> tp_dead s \<Longrightarrow> 0 < tp_notify_one s \<Longrightarrow> i < length (tp_workers s) \<Longrightarrow> tp_workers s ! i = Blocked \<Longrightarrow>
    pool_work throws s (s\<lparr>tp_notify_one := tp_notify_one s - 1, tp_workers := (tp_workers s)[i := Checking]\<rparr>)"
| notify_nobody: "\<not> tp_dead s \<Longrightarrow> 0 < tp_notify_one s \<Longrightarrow> Blocked \<notin> set (tp_workers s) \<Longrightarrow>
    pool_work throws s (s\<lparr>tp_notify_one := tp_notify_one s - 1\<rparr>)"
| notify_all: "\<not> tp_dead s \<Longrightarrow> tp_notify_all s \<Longrightarrow>
    pool_work throws s (s\<lparr>tp_notify_all := False, tp_workers := map wake (tp_workers s)\<rparr>)"
| check: "\<not> tp_dead s \<Longrightarrow> i < length (tp_workers s) \<Longrightarrow> tp_workers s ! i = Checking \<Longrightarrow>
    pool_work throws s (worker_check i s)"
| finish: "\<not> tp_dead s \<Longrightarrow> i < length (tp_workers s) \<Longrightarrow> tp_workers s ! i = Running t \<Longrightarrow> \<not> throws t \<Longrightarrow>
    pool_work throws s (s\<lparr>tp_workers := (tp_workers s)[i := Checking], tp_done := tp_done s @ [t]\<rparr>)"
| escape: "\<not> tp_dead s \<Longrightarrow> i < length (tp_workers s) \<Longrightarrow> tp_workers s ! i = Running t \<Longrightarrow> throws t \<Longrightarrow>
    pool_work throws s (s\<lparr>tp_dead := True\<rparr>)"

inductive pool_step :: "('t \<Rightarrow> bool) \<Rightarrow> 't pool \<Rightarrow> 't pool \<Rightarrow> bool" for throws where
  work: "pool_work throws s t \<Longrightarrow> pool_step throws s t"
| submit: "\<not> tp_dead s \<Longrightarrow> add_task t s = (Ret (), s') \<Longrightarrow> pool_step throws s s'"
| spurious: "\<not> tp_dead s \<Longrightarrow> i < length (tp_workers s) \<Longrightarrow> tp_workers s ! i = Blocked \<Longrightarrow>
    pool_step throws s (s\<lparr>tp_workers := (tp_workers s)[i := Checking]\<rparr>)"
| stop: "\<not> tp_dead s \<Longrightarrow> \<not> tp_stop s \<Longrightarrow> pool_step throws s (pool_stop s)"

inductive pool_reach :: "('t \<Rightarrow> bool) \<Rightarrow> nat \<Rightarrow> 't pool \<Rightarrow> bool" for throws n where
  start: "pool_reach throws n (new_pool n)"
| step: "pool_reach throws n s \<Longrightarrow> pool_step throws s t \<Longrightarrow> pool_reach throws n t"

section \<open>Invariants\<close>

definition running :: "'t worker \<Rightarrow> 't list" where
  "running w = (case w of Running t \<Rightarrow> [t] | _ \<Rightarrow> [])"

definition in_flight :: "'t pool \<Rightarrow> 't multiset" where
  "in_flight s = mset (concat (map running (tp_workers s)))"

lemma running_simps [simp]:
  "running Checking = []" "running Blocked = []" "running Exited = []" "running (Running t) = [t]"
  by (simp_all add: running_def)

lemma mset_running_update:
  assumes "i < length ws"
  shows "mset (concat (map running (ws[i := w]))) + mset (running (ws ! i)) =
         mset (concat (map running ws)) + mset (running w)"
proof -
  have "mset (concat (map running vs)) = sum_list (map (mset \<circ> running) vs)" for vs :: "'a worker list"
    by (induction vs) simp_all
  with sum_list_map_update [OF assms, of "mset \<circ> running" w] show ?thesis by simp
qed

definition asleep :: "'t worker \<Rightarrow> bool" where
  "asleep w \<longleftrightarrow> w = Blocked \<or> w = Exited"

definition pool_inv :: "'t pool \<Rightarrow> bool" where
  "pool_inv s \<longleftrightarrow>
     tp_started s @ tp_tasks s = tp_accepted s \<and>
     mset (tp_done s) + in_flight s = mset (tp_started s) \<and>
     (Exited \<in> set (tp_workers s) \<longrightarrow> tp_stop s \<and> tp_tasks s = []) \<and>
     (tp_stop s \<and> Blocked \<in> set (tp_workers s) \<longrightarrow> tp_notify_all s) \<and>
     (tp_tasks s \<noteq> [] \<and> tp_workers s \<noteq> [] \<and> list_all asleep (tp_workers s) \<longrightarrow> 0 < tp_notify_one s)"

lemma pool_inv_new: "pool_inv (new_pool n)"
  by (simp add: pool_inv_def new_pool_def in_flight_def)


lemma mset_running_swap:
  assumes "i < length ws" "running (ws ! i) = []"
  shows "mset (concat (map running (ws[i := w]))) = mset (concat (map running ws)) + mset (running w)"
  using mset_running_update [OF assms(1), of w] assms(2) by simp

lemma running_wake [simp]: "map (running \<circ> wake) ws = map running ws"
  by (simp add: wake_def running_def split: worker.splits)

lemma wake_simps: "wake w \<noteq> Blocked" "Blocked \<noteq> wake w" "wake w = Exited \<longleftrightarrow> w = Exited"
    "Exited = wake w \<longleftrightarrow> w = Exited" "asleep (wake w) \<longleftrightarrow> w = Exited"
  by (auto simp: wake_def asleep_def split: worker.splits)

lemma asleep_simps [simp]:
  "asleep Blocked" "asleep Exited" "\<not> asleep Checking" "\<not> asleep (Running t)"
  by (simp_all add: asleep_def)

lemma set_update_no: "x \<in> set (ws[i := w]) \<Longrightarrow> x \<noteq> w \<Longrightarrow> x \<in> set ws"
  using set_update_subset_insert [of ws i w] by auto

lemma awake_member [simp]: "i < length ws \<Longrightarrow> \<not> asleep w \<Longrightarrow> \<not> list_all asleep (ws[i := w])"
  using set_update_memI by (fastforce simp: list_all_iff)

lemma worker_check_inv:
  assumes "pool_inv s" "i < length (tp_workers s)" "tp_workers s ! i = Checking"
  shows "pool_inv (worker_check i s)"
proof -
  let ?ws = "tp_workers s"
  have r: "mset (concat (map running (?ws[i := w]))) =
      mset (concat (map running ?ws)) + mset (running w)" for w
    using mset_running_swap [OF assms(2), of w] assms(3) by simp
  have c: "Checking \<in> set ?ws" using assms(2,3) nth_mem by fastforce
  have ex: "Exited \<in> set (?ws[i := w]) \<Longrightarrow> w \<noteq> Exited \<Longrightarrow> Exited \<in> set ?ws" for w
    by (metis set_update_no)
  have bl: "Blocked \<in> set (?ws[i := w]) \<Longrightarrow> w \<noteq> Blocked \<Longrightarrow> Blocked \<in> set ?ws" for w
    by (metis set_update_no)
  consider (block) "\<not> tp_stop s" "tp_tasks s = []" | (exit) "tp_stop s" "tp_tasks s = []"
    | (take) t ts where "tp_tasks s = t # ts" by (cases "tp_tasks s") auto
  then show ?thesis
  proof cases
    case block
    then show ?thesis using assms(1) r ex
      by (auto simp: worker_check_def pool_inv_def in_flight_def)
  next
    case exit
    then show ?thesis using assms(1) r bl
      by (auto simp: worker_check_def pool_inv_def in_flight_def)
  next
    case take
    then show ?thesis using assms(1,2) r ex bl
      by (auto simp: worker_check_def pool_inv_def in_flight_def)
  qed
qed

lemma pool_work_inv: "pool_work throws s t \<Longrightarrow> pool_inv s \<Longrightarrow> pool_inv t"
proof (induction rule: pool_work.induct)
  case (notify s i)
  then show ?case
    using mset_running_swap [of i "tp_workers s" Checking]
    by (auto simp: pool_inv_def in_flight_def dest: set_update_no)
next
  case (notify_nobody s)
  then show ?case
    by (cases "tp_workers s") (auto simp: pool_inv_def in_flight_def asleep_def list_all_iff)
next
  case (notify_all s)
  then show ?case
    by (auto simp: pool_inv_def in_flight_def wake_simps list_all_iff asleep_def)
next
  case (check s i)
  then show ?case by (simp add: worker_check_inv)
next
  case (finish s i t)
  have "mset (concat (map running (tp_workers s))) =
      add_mset t (mset (concat (map running ((tp_workers s)[i := Checking]))))"
    using mset_running_update [of i "tp_workers s" Checking] finish by simp
  with finish show ?case by (auto simp: pool_inv_def in_flight_def dest: set_update_no)
next
  case (escape s i t)
  then show ?case by (simp add: pool_inv_def in_flight_def)
qed

lemma pool_step_inv: "pool_step throws s t \<Longrightarrow> pool_inv s \<Longrightarrow> pool_inv t"
proof (induction rule: pool_step.induct)
  case (work s t)
  then show ?case by (rule pool_work_inv)
next
  case (submit s t s')
  then show ?case
    by (auto simp: add_task_def pool_inv_def in_flight_def split: if_splits)
next
  case (spurious s i)
  then show ?case
    using mset_running_swap [of i "tp_workers s" Checking]
    by (auto simp: pool_inv_def in_flight_def dest: set_update_no)
next
  case (stop s)
  then show ?case by (auto simp: pool_stop_def pool_inv_def in_flight_def)
qed

lemma pool_reach_inv: "pool_reach throws n s \<Longrightarrow> pool_inv s"
  by (induction rule: pool_reach.induct) (auto intro: pool_inv_new pool_step_inv)

lemma worker_check_length [simp]: "length (tp_workers (worker_check i s)) = length (tp_workers s)"
  by (simp add: worker_check_def)

lemma pool_work_length: "pool_work throws s t \<Longrightarrow> length (tp_workers t) = length (tp_workers s)"
  by (induction rule: pool_work.induct) auto

lemma pool_step_length: "pool_step throws s t \<Longrightarrow> length (tp_workers t) = length (tp_workers s)"
  by (induction rule: pool_step.induct)
    (auto simp: pool_work_length add_task_def pool_stop_def split: if_splits)

lemma pool_reach_length: "pool_reach throws n s \<Longrightarrow> length (tp_workers s) = n"
  by (induction rule: pool_reach.induct) (auto simp: new_pool_def pool_step_length)

section \<open>Progress\<close>

definition weight :: "'t worker \<Rightarrow> nat" where
  "weight w = (case w of Checking \<Rightarrow> 1 | Running t \<Rightarrow> 3 | _ \<Rightarrow> 0)"

lemma weight_simps [simp]:
  "weight Checking = 1" "weight Blocked = 0" "weight Exited = 0" "weight (Running t) = 3"
  by (simp_all add: weight_def)

definition pool_measure :: "'t pool \<Rightarrow> nat" where
  "pool_measure s = (if tp_dead s then 0 else 1) + 3 * length (tp_tasks s) + 2 * tp_notify_one s +
     (if tp_notify_all s then Suc (length (tp_workers s)) else 0) + sum_list (map weight (tp_workers s))"

lemmas weight_update = sum_list_map_update [of _ _ weight]

lemma weight_wake: "sum_list (map (weight \<circ> wake) ws) \<le> sum_list (map weight ws) + length ws"
  by (induction ws) (auto simp: wake_def split: worker.splits)

lemma pool_work_decreases: "pool_work throws s t \<Longrightarrow> pool_measure t < pool_measure s"
proof (induction rule: pool_work.induct)
  case (notify s i)
  then show ?case using weight_update [of i "tp_workers s" Checking]
    by (simp add: pool_measure_def)
next
  case (notify_nobody s)
  then show ?case by (simp add: pool_measure_def)
next
  case (notify_all s)
  then show ?case using weight_wake [of "tp_workers s"] by (simp add: pool_measure_def)
next
  case (check s i)
  then show ?case
    using weight_update [of i "tp_workers s" Blocked] weight_update [of i "tp_workers s" Exited]
      weight_update [of i "tp_workers s" "Running (hd (tp_tasks s))"]
    by (cases "tp_tasks s") (auto simp: pool_measure_def worker_check_def)
next
  case (finish s i t)
  then show ?case using weight_update [of i "tp_workers s" Checking]
    by (simp add: pool_measure_def)
next
  case (escape s i t)
  then show ?case by (simp add: pool_measure_def)
qed

text \<open>A pool on which no work step is possible.\<close>

definition pool_idle :: "('t \<Rightarrow> bool) \<Rightarrow> 't pool \<Rightarrow> bool" where
  "pool_idle throws s \<longleftrightarrow> (\<forall>t. \<not> pool_work throws s t)"

lemma idle_workers:
  assumes "pool_idle throws s" "\<not> tp_dead s"
  shows "list_all asleep (tp_workers s)" "tp_notify_one s = 0" "\<not> tp_notify_all s"
proof -
  have "asleep (tp_workers s ! i)" if "i < length (tp_workers s)" for i
    using assms that pool_work.check [of s i throws] pool_work.finish [of s i _ throws]
      pool_work.escape [of s i _ throws]
    by (cases "tp_workers s ! i") (auto simp: pool_idle_def)
  then show "list_all asleep (tp_workers s)" by (simp add: list_all_length)
  show "tp_notify_one s = 0"
  proof (rule ccontr)
    assume "tp_notify_one s \<noteq> 0"
    then show False
      using assms pool_work.notify [of s _ throws] pool_work.notify_nobody [of s throws]
      by (cases "Blocked \<in> set (tp_workers s)") (auto simp: pool_idle_def in_set_conv_nth)
  qed
  show "\<not> tp_notify_all s"
    using assms pool_work.notify_all [of s throws] by (auto simp: pool_idle_def)
qed

section \<open>What a task does\<close>

text \<open>
  \<open>addTask\<close> of a function without a result queues the bound call itself; with a result it queues a
  \<open>packaged_task\<close>, which leaves the result or the exception in the future the caller got;
  \<open>addTaskCallback\<close> queues the call followed by the callback, whose result is dropped.
\<close>

datatype 'a future = Pending | Value 'a | Failure exn

definition void_task :: "('s, unit) prog \<Rightarrow> ('s \<times> 'a future, unit) prog" where
  "void_task f s = (case f (fst s) of (r, t) \<Rightarrow> (r, (t, snd s)))"

definition packaged_task :: "('s, 'a) prog \<Rightarrow> ('s \<times> 'a future, unit) prog" where
  "packaged_task f s =
     (case f (fst s) of (r, t) \<Rightarrow>
       (case r of
          Ret x \<Rightarrow> (Ret (), (t, Value x))
        | Throw e \<Rightarrow> (Ret (), (t, Failure e))
        | Undef \<Rightarrow> (Undef, (t, snd s))
        | Hang \<Rightarrow> (Hang, (t, snd s))
        | Terminate \<Rightarrow> (Terminate, (t, snd s))))"

definition callback_task :: "('s, 'a) prog \<Rightarrow> ('a \<Rightarrow> ('s, 'b) prog) \<Rightarrow> ('s \<times> 'a future, unit) prog" where
  "callback_task payload callback =
     void_task (andthen payload (\<lambda>result. andthen (callback result) (\<lambda>_. ret ())))"

lemma task_escapes:
  "escapes (fst (void_task f s)) \<longleftrightarrow> escapes (fst (f (fst s)))"
  "\<not> escapes (fst (packaged_task g s))"
  "escapes (fst (callback_task g k s)) \<longleftrightarrow> escapes (fst (g (fst s))) \<or>
     (\<exists>x t. g (fst s) = (Ret x, t) \<and> escapes (fst (k x t)))"
  by (auto simp: void_task_def packaged_task_def callback_task_def andthen_def ret_def split: prod.splits outcome.splits)

text \<open>A pool that is only given functions with results cannot die of an exception.\<close>

lemma packaged_pool_lives:
  "pool_reach (\<lambda>f. \<exists>s. escapes (fst (packaged_task f s))) n p \<Longrightarrow> \<not> tp_dead p"
proof (induction rule: pool_reach.induct)
  case start
  then show ?case by (simp add: new_pool_def)
next
  case (step s t)
  from step.hyps(2) show ?case
    by (cases rule: pool_step.cases)
      (auto simp: task_escapes add_task_def pool_stop_def worker_check_def elim!: pool_work.cases split: if_splits)
qed

text \<open>\<open>getThreadCount\<close>\<close>

definition get_thread_count :: "'t pool \<Rightarrow> nat" where
  "get_thread_count p = length (tp_workers p)"

lemma get_thread_count_constant: "pool_reach throws n p \<Longrightarrow> get_thread_count p = n"
  by (simp add: get_thread_count_def pool_reach_length)

section \<open>Properties\<close>

text \<open>
  Tasks start in the order in which \<open>addTask\<close> accepted them, whatever the workers,
  the notifications and the callers do: what has started, followed by the queue, is exactly what
  was accepted.
\<close>

theorem tasks_start_in_order:
  "pool_reach throws n s \<Longrightarrow> tp_started s @ tp_tasks s = tp_accepted s"
  using pool_reach_inv by (auto simp: pool_inv_def)

text \<open>A history used by the witnesses: one worker, one task, then the destructor.\<close>

definition accepted_pool :: "nat pool" where
  "accepted_pool = \<lparr>tp_tasks = [7], tp_stop = False, tp_workers = [Checking], tp_notify_one = 1,
      tp_notify_all = False, tp_dead = False, tp_accepted = [7], tp_started = [], tp_done = []\<rparr>"

definition joined_pool :: "nat pool" where
  "joined_pool = \<lparr>tp_tasks = [], tp_stop = True, tp_workers = [Exited], tp_notify_one = 0,
      tp_notify_all = False, tp_dead = False, tp_accepted = [7], tp_started = [7], tp_done = [7]\<rparr>"

lemma sample_accept:
  "pool_reach (\<lambda>_. False) 1
     accepted_pool"
proof -
  let ?s = "new_pool 1 :: nat pool"
  let ?t = "snd (add_task 7 ?s)"
  have a: "pool_step (\<lambda>_. False) ?s ?t"
    by (rule pool_step.submit [of _ 7]) (simp_all add: new_pool_def add_task_def)
  show ?thesis
    using pool_reach.step [OF pool_reach.start a] by (simp add: new_pool_def add_task_def accepted_pool_def)
qed

lemma sample_run:
  "pool_reach (\<lambda>_. False) 1
     \<lparr>tp_tasks = [], tp_stop = False, tp_workers = [Checking], tp_notify_one = 1,
      tp_notify_all = False, tp_dead = False, tp_accepted = [7 :: nat], tp_started = [7], tp_done = [7]\<rparr>"
  using pool_reach.step [OF pool_reach.step [OF sample_accept
        pool_step.work [OF pool_work.check [of _ 0]]]
      pool_step.work [OF pool_work.finish [of _ 0]]]
  by (simp add: worker_check_def accepted_pool_def)

lemma sample_joined:
  "pool_reach (\<lambda>_. False) 1
     joined_pool"
  using pool_reach.step [OF pool_reach.step [OF pool_reach.step [OF pool_reach.step [OF sample_run
          pool_step.stop]
        pool_step.work [OF pool_work.notify_all]]
      pool_step.work [OF pool_work.check [of _ 0]]]
    pool_step.work [OF pool_work.notify_nobody]]
  by (simp add: worker_check_def wake_def pool_stop_def joined_pool_def)

lemma tasks_start_in_order_witness:
  "tp_started accepted_pool @ tp_tasks accepted_pool = tp_accepted accepted_pool"
  by (rule tasks_start_in_order [OF sample_accept])

text \<open>
  C15: when the destructor's joins return, that is when every worker has left its loop, every
  accepted task has run to its end exactly once; workers leave only after \<open>stop\<close> and never
  abandon a queued task.
\<close>

theorem destructor_drains_queue:
  assumes "pool_reach throws n s" "0 < n" "\<forall>w\<in>set (tp_workers s). w = Exited"
  shows "tp_stop s \<and> tp_tasks s = [] \<and> mset (tp_done s) = mset (tp_accepted s)"
proof -
  note inv = pool_reach_inv [OF assms(1)]
  have "tp_workers s \<noteq> []" using pool_reach_length [OF assms(1)] assms(2) by auto
  then have e: "Exited \<in> set (tp_workers s)" using assms(3) by (metis list.set_sel(1))
  have "map running (tp_workers s) = map (\<lambda>_. []) (tp_workers s)"
    using assms(3) by (intro map_cong) auto
  then have "in_flight s = {#}" by (simp add: in_flight_def)
  with inv e show ?thesis by (auto simp: pool_inv_def)
qed

lemma destructor_drains_queue_witness:
  "tp_stop joined_pool \<and> tp_tasks joined_pool = [] \<and>
     mset (tp_done joined_pool) = mset (tp_accepted joined_pool)"
  by (rule destructor_drains_queue [OF sample_joined]) (simp_all add: joined_pool_def)

text \<open>
  C16: no wake-up is lost: on a pool of at least one worker that is alive, when no worker
  and no pending notification can move any more, the queue is empty, everything accepted has
  been done, and after \<open>stop\<close> every worker has left its loop (so the joins return).
\<close>

theorem no_lost_wakeup:
  assumes "pool_reach throws n s" "0 < n" "\<not> tp_dead s" "pool_idle throws s"
  shows "tp_tasks s = [] \<and> mset (tp_done s) = mset (tp_accepted s) \<and>
    (tp_stop s \<longrightarrow> (\<forall>w\<in>set (tp_workers s). w = Exited))"
proof -
  note inv = pool_reach_inv [OF assms(1)]
  note idle = idle_workers [OF assms(4,3)]
  have ne: "tp_workers s \<noteq> []" using pool_reach_length [OF assms(1)] assms(2) by auto
  have "map running (tp_workers s) = map (\<lambda>_. []) (tp_workers s)"
    using idle(1) by (intro map_cong) (auto simp: list_all_iff asleep_def)
  then have "in_flight s = {#}" by (simp add: in_flight_def)
  with inv ne idle show ?thesis by (auto simp: pool_inv_def list_all_iff asleep_def)
qed

lemma no_lost_wakeup_witness:
  "tp_tasks joined_pool = [] \<and> mset (tp_done joined_pool) = mset (tp_accepted joined_pool) \<and>
     tp_stop joined_pool \<and> hd (tp_workers joined_pool) = Exited"
proof -
  have "pool_idle (\<lambda>_. False) joined_pool"
    by (auto simp: pool_idle_def joined_pool_def elim!: pool_work.cases)
  then show ?thesis
    using no_lost_wakeup [OF sample_joined] by (auto simp: joined_pool_def)
qed

text \<open>
  C32: between two submissions the pool cannot work for ever: every delivery of a notification
  and every pass, end or failure of a task decreases a measure, whatever the schedule.
\<close>

theorem pool_work_terminates: "wf {(t, s). pool_work throws s t}"
  by (rule wf_subset [OF wf_measure [of pool_measure]])
    (auto simp: pool_work_decreases)

text \<open>
  An exception that leaves a task without a result ends the process, whatever else the
  pool is doing: no later step is possible and the accepted tasks stay undone.
\<close>

theorem escaping_task_kills_pool:
  "pool_work throws s t \<Longrightarrow> tp_dead t \<Longrightarrow> pool_idle throws t \<and>
     (\<exists>x. throws x \<and> Running x \<in> set (tp_workers t)) \<and> tp_done t = tp_done s"
proof (induction rule: pool_work.induct)
  case (escape s i x)
  then have "Running x \<in> set (tp_workers s)" by (metis nth_mem)
  with escape show ?case by (auto simp: pool_idle_def elim!: pool_work.cases)
qed (auto simp: worker_check_def split: if_splits)

lemma escaping_task_kills_pool_witness:
  "pool_idle (\<lambda>_. True) (\<lparr>tp_tasks = [], tp_stop = False, tp_workers = [Running (7 :: nat)], tp_notify_one = 0,
      tp_notify_all = False, tp_dead = True, tp_accepted = [7], tp_started = [7], tp_done = []\<rparr>)"
  using escaping_task_kills_pool [OF pool_work.escape [of "\<lparr>tp_tasks = [], tp_stop = False,
      tp_workers = [Running (7 :: nat)], tp_notify_one = 0, tp_notify_all = False, tp_dead = False,
      tp_accepted = [7], tp_started = [7], tp_done = []\<rparr>" 0 7 "\<lambda>_. True"]] by simp

end
