(* ===== verification/WsSession.thy ===== *)
theory WsSession
  imports WsSessionMgr Auth ThreadPool
begin

text \<open>
  A WebSocket session, \<open>src/src/core/websocket_session.hpp\<close> and \<open>websocket_session.cpp\<close>:
  the handshake with its authentication, the read loop that hands messages to the worker
  pool, and the write queue. The session's handlers run on its strand, one after the other; the
  asynchronous operations a handler starts are its effects. \<open>async_read\<close> appends to
  \<open>buffer_\<close>, as Beast documents.
\<close>

section \<open>State and effects\<close>

datatype error_code = Ok | Closed | End_of_stream | Aborted | Failed string

text \<open>\<open>wss_claims\<close> is \<open>None\<close> while \<open>user_claims_.id\<close> has no determinate value.\<close>

record ws_session =
  wss_queue :: "string list"
  wss_buffer :: string
  wss_claims :: "user_claims option"

definition new_ws_session :: ws_session where
  "new_ws_session = \<lparr>wss_queue = [], wss_buffer = [], wss_claims = None\<rparr>"

datatype ws_effect = Async_accept | Async_read | Async_write string

definition writes :: "ws_effect list \<Rightarrow> string list" where
  "writes es = List.map_filter (\<lambda>e. case e of Async_write m \<Rightarrow> Some m | _ \<Rightarrow> None) es"

section \<open>Operations\<close>

text \<open>\<open>auth_user\<close>; \<open>h\<close> is the number of the session object.\<close>

definition auth_user :: "'w env \<Rightarrow> nat \<Rightarrow> string \<Rightarrow> ws_session \<Rightarrow> ('w sys, ws_session) prog" where
  "auth_user E h tok ws =
     andthen (lift (extract_user_claims E tok)) (\<lambda>claims.
     andthen (add_session (uc_id claims) h) (\<lambda>_.
       ret (ws\<lparr>wss_claims := Some claims\<rparr>)))"

definition do_accept :: "'w env \<Rightarrow> nat \<Rightarrow> string option \<Rightarrow> ws_session \<Rightarrow> ('w sys, ws_session \<times> ws_effect list) prog" where
  "do_accept E h authorization ws =
     try_catch
       (case authorization of
          None \<Rightarrow> raise (RuntimeError ''Authorization header not found'')
        | Some tok \<Rightarrow>
            if tok = [] then raise (RuntimeError ''Empty authorization token'')
            else andthen (auth_user E h tok ws) (\<lambda>ws'. ret (ws', [Async_accept])))
       (\<lambda>e. ret (ws, []))"

definition ws_on_accept :: "error_code \<Rightarrow> ws_effect list" where
  "ws_on_accept ec = (if ec \<noteq> Ok then [] else [Async_read])"

text \<open>What \<open>async_read\<close> does before it calls \<open>on_read\<close> without an error.\<close>

definition ws_arrive :: "string \<Rightarrow> ws_session \<Rightarrow> ws_session" where
  "ws_arrive msg ws = ws\<lparr>wss_buffer := wss_buffer ws @ msg\<rparr>"

text \<open>
  \<open>on_read\<close>: a task for the pool, \<open>WSHandler::handle_message\<close> bound to the contents of the
  buffer and the claims (\<open>task\<close> makes it), and the next read.
\<close>

definition ws_on_read ::
    "(string \<Rightarrow> user_claims \<Rightarrow> 't) \<Rightarrow> error_code \<Rightarrow> ws_session \<Rightarrow> ('t pool, ws_session \<times> ws_effect list) prog" where
  "ws_on_read task ec ws =
     (if ec = Closed then ret (ws, [])
      else if ec \<noteq> Ok then ret (ws, [])
      else case wss_claims ws of
          None \<Rightarrow> undef
        | Some claims \<Rightarrow>
            andthen (add_task (task (wss_buffer ws) claims)) (\<lambda>_. ret (ws, [Async_read])))"

definition ws_on_send :: "string \<Rightarrow> ws_session \<Rightarrow> ws_session \<times> ws_effect list" where
  "ws_on_send str ws =
     (let ws' = ws\<lparr>wss_queue := wss_queue ws @ [str]\<rparr>
      in (ws', if length (wss_queue ws') = 1 then [Async_write (hd (wss_queue ws'))] else []))"

definition ws_on_write :: "error_code \<Rightarrow> ws_session \<Rightarrow> ws_session \<times> ws_effect list" where
  "ws_on_write ec ws =
     (if ec \<noteq> Ok then (ws, [])
      else let ws' = ws\<lparr>wss_queue := tl (wss_queue ws)\<rparr>
           in (ws', if wss_queue ws' \<noteq> [] then [Async_write (hd (wss_queue ws'))] else []))"

text \<open>The destructor reads \<open>user_claims_.id\<close>, also when authentication never set it.\<close>

definition ws_dtor :: "ws_session \<Rightarrow> ('w sys, unit) prog" where
  "ws_dtor ws = (case wss_claims ws of None \<Rightarrow> undef | Some claims \<Rightarrow> remove_session (uc_id claims))"

section \<open>The write queue\<close>

definition ws_send :: "string \<Rightarrow> ws_session \<Rightarrow> ws_session \<times> string list" where
  "ws_send m ws = (fst (ws_on_send m ws), writes (snd (ws_on_send m ws)))"

definition ws_written :: "ws_session \<Rightarrow> ws_session \<times> string list" where
  "ws_written ws = (fst (ws_on_write Ok ws), writes (snd (ws_on_write Ok ws)))"

lemma writes_simps [simp]: "writes [] = []" "writes [Async_write m] = [m]"
  by (simp_all add: writes_def map_filter_simps)

interpretation wsq: write_queue wss_queue ws_send ws_written
  by unfold_locales
    (auto simp: ws_send_def ws_written_def ws_on_send_def ws_on_write_def Let_def take_Suc)

section \<open>Properties\<close>

text \<open>
  From an idle session, whatever the order in which messages are handed over and writes
  end, messages go out in the order of \<open>send\<close>, each once, with at most one write outstanding
  (Beast forbids two); when none is outstanding, everything handed over has been written.
\<close>

theorem ws_messages_in_order:
  assumes "wss_queue ws = []" "fold (wq_step ws_send ws_written) evs (ws, [], [], 0) = (t, sent, started, ended)"
  shows "started = take (length started) sent \<and> ended \<le> length started \<and> length started \<le> Suc ended \<and>
    (length started = ended \<longrightarrow> started = sent)"
  using wsq.write_queue_run [OF assms] by blast

lemma ws_messages_in_order_witness:
  "\<exists>t. fold (wq_step ws_send ws_written) [Send ''a'', Send ''b'', Written] (new_ws_session, [], [], 0)
     = (t, [''a'', ''b''], [''a'', ''b''], 1) \<and> [''a'', ''b''] = take 2 [''a'', ''b'' :: string] \<and> (2 :: nat) \<le> Suc 1"
proof -
  let ?r = "fold (wq_step ws_send ws_written) [Send ''a'', Send ''b'', Written] (new_ws_session, [], [], 0)"
  obtain t where t: "?r = (t, [''a'', ''b''], [''a'', ''b''], 1)"
    by (simp add: wq_step_def ws_send_def ws_written_def ws_on_send_def ws_on_write_def new_ws_session_def)
  with ws_messages_in_order [OF _ t] show ?thesis by (simp add: new_ws_session_def)
qed

text \<open>
  A failed write ends the sending side for good: \<open>on_write\<close> leaves the message at the
  front of the queue, and no later \<open>send\<close> starts a write.
\<close>

theorem ws_write_error_stalls:
  assumes "wss_queue ws \<noteq> []" "ec \<noteq> Ok"
  shows "ws_on_write ec ws = (ws, []) \<and>
    snd (fold (\<lambda>m (s, es). (fst (ws_on_send m s), es @ snd (ws_on_send m s))) msgs (fst (ws_on_write ec ws), [])) = []"
proof -
  have "snd (fold (\<lambda>m (s, es). (fst (ws_on_send m s), es @ snd (ws_on_send m s))) msgs (s, [])) = []"
    if "wss_queue s \<noteq> []" for s
    using that by (induction msgs arbitrary: s) (simp_all add: ws_on_send_def Let_def)
  with assms show ?thesis by (simp add: ws_on_write_def)
qed

lemma ws_write_error_stalls_witness:
  "ws_on_write Aborted (new_ws_session\<lparr>wss_queue := [''a'']\<rparr>) = (new_ws_session\<lparr>wss_queue := [''a'']\<rparr>, [])"
  using ws_write_error_stalls [of "new_ws_session\<lparr>wss_queue := [''a'']\<rparr>" Aborted "[]"] by simp

text \<open>Successive messages: each arrives in the buffer, then \<open>on_read\<close> runs.\<close>

fun ws_read_all ::
    "(string \<Rightarrow> user_claims \<Rightarrow> 't) \<Rightarrow> string list \<Rightarrow> ws_session \<Rightarrow> ('t pool, ws_session) prog" where
  "ws_read_all task [] ws = ret ws"
| "ws_read_all task (m # ms) ws =
     andthen (ws_on_read task Ok (ws_arrive m ws)) (\<lambda>(ws', es). ws_read_all task ms ws')"

text \<open>
  C38: the buffer is never consumed, so the task of a message gets everything received on the
  connection so far: only the first message reaches \<open>handle_message\<close> as it was sent.
\<close>

theorem ws_tasks_get_all_messages_so_far:
  assumes "wss_claims ws = Some c" "\<not> tp_stop p"
  shows "\<exists>ws' p'. ws_read_all task msgs ws p = (Ret ws', p') \<and>
    tp_tasks p' = tp_tasks p @
      map (\<lambda>k. task (wss_buffer ws @ concat (take (Suc k) msgs)) c) [0..<length msgs]"
  using assms
proof (induction msgs arbitrary: ws p)
  case Nil
  then show ?case by (simp add: ret_def)
next
  case (Cons m ms)
  let ?ws = "ws_arrive m ws" and ?p = "snd (add_task (task (wss_buffer ws @ m) c) p)"
  have read: "ws_on_read task Ok ?ws p = (Ret (?ws, [Async_read]), ?p)" and "\<not> tp_stop ?p"
    and tasks: "tp_tasks ?p = tp_tasks p @ [task (wss_buffer ws @ m) c]"
    using Cons.prems by (simp_all add: ws_on_read_def ws_arrive_def andthen_def add_task_def ret_def)
  moreover have "wss_claims ?ws = Some c" using Cons.prems(1) by (simp add: ws_arrive_def)
  ultimately obtain ws' p' where IH: "ws_read_all task ms ?ws ?p = (Ret ws', p')"
    "tp_tasks p' = tp_tasks ?p @ map (\<lambda>k. task (wss_buffer ?ws @ concat (take (Suc k) ms)) c) [0..<length ms]"
    using Cons.IH by blast
  have "map (\<lambda>k. task (wss_buffer ws @ concat (take (Suc k) (m # ms))) c) [0..<length (m # ms)] =
      task (wss_buffer ws @ m) c # map (\<lambda>k. task (wss_buffer ?ws @ concat (take (Suc k) ms)) c) [0..<length ms]"
    by (simp add: upt_conv_Cons map_Suc_upt [symmetric] ws_arrive_def del: upt_Suc)
  with IH read tasks show ?case by (simp add: andthen_def)
qed

lemma ws_tasks_get_all_messages_so_far_witness:
  "\<exists>p'. tp_tasks p' = [''a'', ''ab''] \<and>
     snd (ws_read_all (\<lambda>m c. m) [''a'', ''b''] (new_ws_session\<lparr>wss_claims := Some \<lparr>uc_id = 7, uc_username = ''bob''\<rparr>\<rparr>) (new_pool 1)) = p'"
  using ws_tasks_get_all_messages_so_far [of "new_ws_session\<lparr>wss_claims := Some \<lparr>uc_id = 7, uc_username = ''bob''\<rparr>\<rparr>"
      "\<lparr>uc_id = 7, uc_username = ''bob''\<rparr>" "new_pool 1" "\<lambda>m c. m" "[''a'', ''b'']"]
  by (auto simp: new_pool_def new_ws_session_def upt_rec)

text \<open>
  When a user has logged in again, the end of the old session's object erases the entry of
  the new session: messages for the user are dropped although the new session is alive.
\<close>

theorem old_session_unregisters_new:
  assumes "wss_claims old = Some c" "sys_sessions s (uc_id c) = Some new" "sys_alive s new"
  shows "online s (uc_id c) = Some new \<and>
    (\<exists>t u. ws_dtor old s = (Ret (), t) \<and> write_to (uc_id c) msg t = (Ret (), u) \<and> db_log u = db_log s)"
  using assms
  by (simp add: online_def ws_dtor_def remove_session_def andthen_def gets_def modify_def write_to_run)

lemma old_session_unregisters_new_witness:
  "online demo_sys 7 = Some 3"
  using old_session_unregisters_new [of "new_ws_session\<lparr>wss_claims := Some \<lparr>uc_id = 7, uc_username = ''bob''\<rparr>\<rparr>"
      "\<lparr>uc_id = 7, uc_username = ''bob''\<rparr>" demo_sys 3 "''m''"]
  by (simp add: demo_sys_def)

end
