(* ===== verification/HttpSession.thy ===== *)
theory HttpSession
  imports RequestHandler WsSession
begin

text \<open>
  An HTTP connection, \<open>src/src/core/http_session.hpp\<close> and \<open>http_session.cpp\<close>: the read
  loop with its limit on requests in flight, the hand-over to the worker pool, and the response
  queue. The handlers run on the session's strand; what they start (an asynchronous read or
  write, a task, a shutdown) is their list of effects. The second half runs a session against
  everything that can end: reads, tasks, posted responses and writes, in any order.
\<close>

section \<open>State and effects\<close>

text \<open>
  \<open>hs_parser\<close> is the body limit of the parser in \<open>parser_\<close>, \<open>None\<close> when there is none
  that could be read into (not emplaced yet, or released).
\<close>

record http_session =
  hs_inflight :: u64
  hs_queue :: "response list"
  hs_parser :: "nat option"

definition new_http_session :: http_session where
  "new_http_session = \<lparr>hs_inflight = 0, hs_queue = [], hs_parser = None\<rparr>"

text \<open>
  The constructor. Its log line asks the socket for the peer's address and for its port, at every
  log level; both calls throw when the peer has gone.
\<close>

definition http_session_ctor :: "exn + string \<Rightarrow> exn + u16 \<Rightarrow> http_session outcome" where
  "http_session_ctor address port =
     obind (of_sum address) (\<lambda>_. obind (of_sum port) (\<lambda>_. Ret new_http_session))"

datatype http_effect =
    Expires_after nat  \<comment> \<open>seconds\<close>
  | Http_read nat  \<comment> \<open>\<open>async_read\<close>, with the parser's body limit\<close>
  | Http_write response  \<comment> \<open>\<open>async_write\<close>; \<open>on_write\<close> is bound to its \<open>keep_alive()\<close>\<close>
  | Add_task http_request
  | Post_response response  \<comment> \<open>\<open>net::post\<close> of \<open>queue_write\<close>\<close>
  | Upgrade http_request  \<comment> \<open>a \<open>WebsocketSession\<close> on the released socket, and its \<open>do_accept\<close>\<close>
  | Shutdown_send

section \<open>Operations\<close>

definition http_do_read :: "u32 \<Rightarrow> http_session \<Rightarrow> http_session \<times> http_effect list" where
  "http_do_read queue_limit s =
     (let s' = s\<lparr>hs_parser := Some 10000\<rparr>
      in if hs_inflight s' \<ge> ucast queue_limit then (s', [Expires_after 30])
         else (s', [Expires_after 30, Http_read 10000]))"

definition http_do_close :: "http_effect list" where
  "http_do_close = [Shutdown_send]"

definition http_on_read ::
    "(http_request \<Rightarrow> bool) \<Rightarrow> error_code \<Rightarrow> http_request \<Rightarrow> http_session \<Rightarrow> http_session \<times> http_effect list" where
  "http_on_read is_upgrade ec req s =
     (if ec = End_of_stream then (s, http_do_close)
      else if ec \<noteq> Ok then (s, [])
      else if is_upgrade req then (s\<lparr>hs_parser := None\<rparr>, [Upgrade req])
      else (s\<lparr>hs_inflight := hs_inflight s + 1, hs_parser := None\<rparr>, [Add_task req]))"

definition http_do_write :: "http_session \<Rightarrow> http_effect list" where
  "http_do_write s = (if hs_queue s \<noteq> [] then [Http_write (hd (hs_queue s))] else [])"

definition http_queue_write :: "response \<Rightarrow> http_session \<Rightarrow> http_session \<times> http_effect list" where
  "http_queue_write resp s =
     (let s' = s\<lparr>hs_queue := hs_queue s @ [resp]\<rparr>
      in (s', if length (hs_queue s') = 1 then http_do_write s' else []))"

definition http_on_write :: "u32 \<Rightarrow> bool \<Rightarrow> error_code \<Rightarrow> http_session \<Rightarrow> http_session \<times> http_effect list" where
  "http_on_write queue_limit keep_alive ec s =
     (if ec \<noteq> Ok then (s, [])
      else if \<not> keep_alive then (s, http_do_close)
      else let s1 = s\<lparr>hs_inflight := hs_inflight s - 1\<rparr>;
               (s2, es) = (if of_nat (length (hs_queue s1)) = (ucast queue_limit :: u64)
                           then http_do_read queue_limit s1 else (s1, []));
               s3 = s2\<lparr>hs_queue := tl (hs_queue s2)\<rparr>
           in (s3, es @ http_do_write s3))"

text \<open>\<open>send_response\<close>, which writes past the queue, and the end of a worker's task.\<close>

definition http_send_response :: "response \<Rightarrow> http_effect list" where
  "http_send_response msg = [Http_write msg]"

definition queue_response_from_worker :: "response \<Rightarrow> http_effect list" where
  "queue_response_from_worker resp = [Post_response resp]"

text \<open>The task \<open>on_read\<close> hands to the pool: answer, then post the response to the strand.\<close>

definition http_task :: "'w env \<Rightarrow> http_request \<Rightarrow> ('w sys, http_effect list) prog" where
  "http_task E req = andthen (handle_request E req) (\<lambda>response. ret (queue_response_from_worker response))"

section \<open>The response queue\<close>

definition http_writes :: "http_effect list \<Rightarrow> response list" where
  "http_writes es = List.map_filter (\<lambda>e. case e of Http_write m \<Rightarrow> Some m | _ \<Rightarrow> None) es"

definition http_enqueue :: "response \<Rightarrow> http_session \<Rightarrow> http_session \<times> response list" where
  "http_enqueue m s = (fst (http_queue_write m s), http_writes (snd (http_queue_write m s)))"

definition http_written :: "u32 \<Rightarrow> http_session \<Rightarrow> http_session \<times> response list" where
  "http_written queue_limit s =
     (fst (http_on_write queue_limit True Ok s), http_writes (snd (http_on_write queue_limit True Ok s)))"

lemma http_writes_simps [simp]:
  "http_writes [] = []" "http_writes (Http_write m # es) = m # http_writes es"
  "http_writes (Expires_after n # es) = http_writes es" "http_writes (Http_read n # es) = http_writes es"
  "http_writes (es @ es') = http_writes es @ http_writes es'"
  by (simp_all add: http_writes_def map_filter_simps map_filter_def)

interpretation hsq: write_queue hs_queue http_enqueue "http_written queue_limit" for queue_limit
proof unfold_locales
  fix m and s :: http_session
  show "hs_queue (fst (http_enqueue m s)) = hs_queue s @ [m]"
    "snd (http_enqueue m s) = (if hs_queue s = [] then [m] else [])"
    by (simp_all add: http_enqueue_def http_queue_write_def http_do_write_def Let_def)
next
  fix s :: http_session and m q assume "hs_queue s = m # q"
  then show "hs_queue (fst (http_written queue_limit s)) = q" "snd (http_written queue_limit s) = take 1 q"
    by (simp_all add: http_written_def http_on_write_def http_do_read_def http_do_write_def Let_def take_Suc)
qed

text \<open>
  Whatever the order in which workers post responses and writes end, while the connection is kept
  alive: responses go out in the order in which they were queued, each once, with at most one write
  outstanding.
\<close>

lemma http_responses_in_order:
  assumes "hs_queue s = []"
    "fold (wq_step http_enqueue (http_written queue_limit)) evs (s, [], [], 0) = (t, sent, started, ended)"
  shows "started = take (length started) sent \<and> ended \<le> length started \<and> length started \<le> Suc ended \<and>
    (length started = ended \<longrightarrow> started = sent)"
  using hsq.write_queue_run [OF assms] by blast

definition demo_response :: "bool \<Rightarrow> response" where
  "demo_response ka = \<lparr>rs_status = 200, rs_version = 11, rs_server = ''s'', rs_content_type = ''t'',
     rs_content_length = Some ''4'', rs_keep_alive = ka, rs_body = Text_body ''null''\<rparr>"

section \<open>A session and its surroundings\<close>

text \<open>
  What is outstanding: reads, tasks in the pool, responses posted to the strand, writes with the
  \<open>keep_alive\<close> their completion handler is bound to. The last fields are the history of the
  connection, which the code does not keep: the reads started, the requests handed to the pool,
  the answers the tasks gave, the responses whose write was started.
\<close>

record http_world =
  hw_session :: http_session
  hw_reads :: nat
  hw_tasks :: "http_request list"
  hw_posted :: "response list"
  hw_writing :: "bool list"
  hw_reads_started :: nat
  hw_requests :: "http_request list"
  hw_answers :: "(http_request \<times> response) list"
  hw_written :: "response list"
  hw_closed :: bool
  hw_upgraded :: bool

fun http_apply :: "http_effect \<Rightarrow> http_world \<Rightarrow> http_world" where
  "http_apply (Expires_after n) w = w"
| "http_apply (Http_read n) w = w\<lparr>hw_reads := Suc (hw_reads w), hw_reads_started := Suc (hw_reads_started w)\<rparr>"
| "http_apply (Http_write r) w = w\<lparr>hw_writing := hw_writing w @ [rs_keep_alive r], hw_written := hw_written w @ [r]\<rparr>"
| "http_apply (Add_task req) w = w\<lparr>hw_tasks := hw_tasks w @ [req], hw_requests := hw_requests w @ [req]\<rparr>"
| "http_apply (Post_response r) w = w\<lparr>hw_posted := hw_posted w @ [r]\<rparr>"
| "http_apply (Upgrade req) w = w\<lparr>hw_upgraded := True\<rparr>"
| "http_apply Shutdown_send w = w\<lparr>hw_closed := True\<rparr>"

definition perform :: "http_session \<times> http_effect list \<Rightarrow> http_world \<Rightarrow> http_world" where
  "perform = (\<lambda>(s, es) w. fold http_apply es (w\<lparr>hw_session := s\<rparr>))"

definition no_surroundings :: http_world where
  "no_surroundings = \<lparr>hw_session = new_http_session, hw_reads = 0, hw_tasks = [], hw_posted = [],
     hw_writing = [], hw_reads_started = 0, hw_requests = [], hw_answers = [], hw_written = [], hw_closed = False, hw_upgraded = False\<rparr>"

text \<open>\<open>run\<close> starts with \<open>do_read\<close> on the strand.\<close>

definition http_run :: "u32 \<Rightarrow> http_world" where
  "http_run queue_limit = perform (http_do_read queue_limit new_http_session) no_surroundings"

definition remove_nth :: "nat \<Rightarrow> 'a list \<Rightarrow> 'a list" where
  "remove_nth i xs = take i xs @ drop (Suc i) xs"

text \<open>
  Something ends: a read, with any error code and request; a task, with any response (what
  \<open>handle_request\<close> may answer is not restricted here); a posted response reaches the strand; a
  write.
\<close>

inductive http_step :: "u32 \<Rightarrow> (http_request \<Rightarrow> bool) \<Rightarrow> http_world \<Rightarrow> http_world \<Rightarrow> bool"
  for queue_limit is_upgrade where
  read_ends: "0 < hw_reads w \<Longrightarrow>
    http_step queue_limit is_upgrade w
      (perform (http_on_read is_upgrade ec req (hw_session w)) (w\<lparr>hw_reads := hw_reads w - 1\<rparr>))"
| task_ends: "i < length (hw_tasks w) \<Longrightarrow>
    http_step queue_limit is_upgrade w
      (perform (hw_session w, queue_response_from_worker resp)
        (w\<lparr>hw_tasks := remove_nth i (hw_tasks w), hw_answers := hw_answers w @ [(hw_tasks w ! i, resp)]\<rparr>))"
| posted_runs: "hw_posted w = r # rs \<Longrightarrow>
    http_step queue_limit is_upgrade w
      (perform (http_queue_write r (hw_session w)) (w\<lparr>hw_posted := rs\<rparr>))"
| write_ends: "i < length (hw_writing w) \<Longrightarrow>
    http_step queue_limit is_upgrade w
      (perform (http_on_write queue_limit (hw_writing w ! i) ec (hw_session w))
        (w\<lparr>hw_writing := remove_nth i (hw_writing w)\<rparr>))"

inductive http_reach :: "u32 \<Rightarrow> (http_request \<Rightarrow> bool) \<Rightarrow> http_world \<Rightarrow> bool" for queue_limit is_upgrade where
  start: "http_reach queue_limit is_upgrade (http_run queue_limit)"
| step: "http_reach queue_limit is_upgrade w \<Longrightarrow> http_step queue_limit is_upgrade w w' \<Longrightarrow>
    http_reach queue_limit is_upgrade w'"

text \<open>How many operations are outstanding: each holds a reference to the session.\<close>

definition pending :: "http_world \<Rightarrow> nat" where
  "pending w = hw_reads w + length (hw_tasks w) + length (hw_posted w) + length (hw_writing w)"

section \<open>One request at a time\<close>

text \<open>
  The contract of a connection as an abstract machine: one request is read, worked on, its
  response posted and written, and then the next is read or the connection is over.
\<close>

datatype phase = Reading | Working | Posted | Writing | Over

inductive conn_step :: "u32 \<Rightarrow> phase \<Rightarrow> phase \<Rightarrow> bool" for queue_limit where
  request: "conn_step queue_limit Reading Working"
| hang_up: "conn_step queue_limit Reading Over"
| answered: "conn_step queue_limit Working Posted"
| queued: "conn_step queue_limit Posted Writing"
| again: "queue_limit = 1 \<Longrightarrow> conn_step queue_limit Writing Reading"
| finished: "conn_step queue_limit Writing Over"

definition phase_of :: "http_world \<Rightarrow> phase" where
  "phase_of w = (if hw_reads w \<noteq> 0 then Reading else if hw_tasks w \<noteq> [] then Working
     else if hw_posted w \<noteq> [] then Posted else if hw_writing w \<noteq> [] then Writing else Over)"

text \<open>What each phase says of the concrete state.\<close>

definition phase_ok :: "phase \<Rightarrow> http_world \<Rightarrow> bool" where
  "phase_ok ph w = (case ph of
       Reading \<Rightarrow> hw_reads w = 1 \<and> hw_tasks w = [] \<and> hw_posted w = [] \<and> hw_writing w = [] \<and>
         hs_queue (hw_session w) = [] \<and> hs_inflight (hw_session w) = 0 \<and> \<not> hw_closed w
     | Working \<Rightarrow> hw_reads w = 0 \<and> length (hw_tasks w) = 1 \<and> hw_posted w = [] \<and> hw_writing w = [] \<and>
         hs_queue (hw_session w) = [] \<and> hs_inflight (hw_session w) = 1 \<and> \<not> hw_closed w
     | Posted \<Rightarrow> hw_reads w = 0 \<and> hw_tasks w = [] \<and> length (hw_posted w) = 1 \<and> hw_writing w = [] \<and>
         hs_queue (hw_session w) = [] \<and> hs_inflight (hw_session w) = 1 \<and> \<not> hw_closed w
     | Writing \<Rightarrow> hw_reads w = 0 \<and> hw_tasks w = [] \<and> hw_posted w = [] \<and>
         (\<exists>r. hs_queue (hw_session w) = [r] \<and> hw_writing w = [rs_keep_alive r]) \<and>
         hs_inflight (hw_session w) = 1 \<and> \<not> hw_closed w
     | Over \<Rightarrow> pending w = 0 \<and> length (hs_queue (hw_session w)) \<le> 1 \<and> hs_inflight (hw_session w) \<le> 1)"

lemma phase_ok_of: "phase_ok ph w \<Longrightarrow> phase_of w = ph"
  by (cases ph) (auto simp: phase_ok_def phase_of_def pending_def)

definition http_inv :: "u32 \<Rightarrow> http_world \<Rightarrow> bool" where
  "http_inv queue_limit w \<longleftrightarrow> phase_ok (phase_of w) w \<and> (queue_limit \<noteq> 1 \<longrightarrow> hw_reads_started w = 1)"

lemma ucast_limit [simp]:
  "(ucast (n :: u32) = (1 :: u64)) = (n = 1)" "((1 :: u64) = ucast (n :: u32)) = (n = 1)"
  "(ucast (n :: u32) = (0 :: u64)) = (n = 0)"
proof -
  have "unat n < 2 ^ 64" using unsigned_less [of n, where ?'a = nat] by simp
  then have u: "unat (ucast n :: u64) = unat n" by (simp add: unsigned_ucast_eq take_bit_nat_eq_self)
  show "(ucast n = (1 :: u64)) = (n = 1)"
    using u by (metis unat_1 word_unat_eq_iff)
  then show "((1 :: u64) = ucast n) = (n = 1)" by metis
  show "(ucast n = (0 :: u64)) = (n = 0)" using u by (metis unat_0 word_unat_eq_iff)
qed

lemmas http_ops = http_on_read_def http_do_read_def http_queue_write_def http_on_write_def http_do_write_def
  http_do_close_def queue_response_from_worker_def perform_def remove_nth_def

lemma http_inv_start: "queue_limit \<noteq> 0 \<Longrightarrow> http_inv queue_limit (http_run queue_limit)"
  by (simp add: http_inv_def phase_of_def phase_ok_def http_run_def http_ops no_surroundings_def
      new_http_session_def Let_def)

text \<open>Each transition, from the phase it needs to the phase it leads to.\<close>

lemma http_step_phase:
  assumes "http_step queue_limit is_upgrade w w'" "phase_ok ph w" "queue_limit \<noteq> 0"
  shows "\<exists>ph'. phase_ok ph' w' \<and> conn_step queue_limit ph ph' \<and>
    (queue_limit \<noteq> 1 \<longrightarrow> hw_reads_started w' = hw_reads_started w)"
  using assms
proof (induction rule: http_step.induct)
  case (read_ends w ec req)
  then have ph: "ph = Reading" by (cases ph) (auto simp: phase_ok_def pending_def)
  show ?case
  proof (cases "ec = Ok \<and> \<not> is_upgrade req")
    case True
    with ph read_ends show ?thesis
      by (intro exI [of _ Working]) (auto intro: conn_step.intros simp: phase_ok_def http_ops)
  next
    case False
    with ph read_ends show ?thesis
      by (intro exI [of _ Over]) (auto intro: conn_step.intros simp: phase_ok_def pending_def http_ops)
  qed
next
  case (task_ends i w resp)
  then have "ph = Working" by (cases ph) (auto simp: phase_ok_def pending_def)
  with task_ends show ?case
    by (intro exI [of _ Posted]) (auto intro: conn_step.intros simp: phase_ok_def http_ops)
next
  case (posted_runs w r rs)
  then have "ph = Posted" by (cases ph) (auto simp: phase_ok_def pending_def)
  with posted_runs show ?case
    by (intro exI [of _ Writing]) (auto intro: conn_step.intros simp: phase_ok_def http_ops)
next
  case (write_ends i w ec)
  then have ph: "ph = Writing" by (cases ph) (auto simp: phase_ok_def pending_def)
  show ?case
  proof (cases "ec = Ok \<and> hw_writing w ! i \<and> queue_limit = 1")
    case True
    with ph write_ends show ?thesis
      by (intro exI [of _ Reading]) (auto intro: conn_step.intros simp: phase_ok_def http_ops Let_def)
  next
    case False
    with ph write_ends show ?thesis
      by (intro exI [of _ Over]) (auto intro: conn_step.intros simp: phase_ok_def pending_def http_ops Let_def)
  qed
qed

lemma http_reach_inv:
  assumes "http_reach queue_limit is_upgrade w" "queue_limit \<noteq> 0"
  shows "http_inv queue_limit w"
  using assms
proof (induction rule: http_reach.induct)
  case (step w w')
  then have "phase_ok (phase_of w) w" "queue_limit \<noteq> 1 \<longrightarrow> hw_reads_started w = 1" by (auto simp: http_inv_def)
  with http_step_phase [OF step.hyps(2) _ step.prems] show ?case
    using phase_ok_of unfolding http_inv_def by metis
qed (rule http_inv_start)

section \<open>The history of a connection\<close>

text \<open>
  The requests are those answered and then those being worked on; the answers are those
  written and then those posted; every request came from a read of its own.
\<close>

definition history_ok :: "http_world \<Rightarrow> bool" where
  "history_ok w \<longleftrightarrow> hw_requests w = map fst (hw_answers w) @ hw_tasks w \<and>
     map snd (hw_answers w) = hw_written w @ hw_posted w \<and>
     length (hw_requests w) + hw_reads w \<le> hw_reads_started w"

lemma http_step_history:
  assumes "http_step queue_limit is_upgrade w w'" "phase_ok ph w" "queue_limit \<noteq> 0" "history_ok w"
  shows "history_ok w'"
  using assms
proof (induction rule: http_step.induct)
  case (read_ends w ec req)
  then have "ph = Reading" by (cases ph) (auto simp: phase_ok_def pending_def)
  with read_ends show ?case by (auto simp: phase_ok_def history_ok_def http_ops)
next
  case (task_ends i w resp)
  then have "ph = Working" by (cases ph) (auto simp: phase_ok_def pending_def)
  with task_ends show ?case by (auto simp: phase_ok_def history_ok_def http_ops length_Suc_conv)
next
  case (posted_runs w r rs)
  then have "ph = Posted" by (cases ph) (auto simp: phase_ok_def pending_def)
  with posted_runs show ?case by (auto simp: phase_ok_def history_ok_def http_ops Let_def)
next
  case (write_ends i w ec)
  then have "ph = Writing" by (cases ph) (auto simp: phase_ok_def pending_def)
  with write_ends show ?case by (auto simp: phase_ok_def history_ok_def http_ops Let_def)
qed

lemma http_reach_history:
  assumes "http_reach queue_limit is_upgrade w" "queue_limit \<noteq> 0"
  shows "history_ok w"
  using assms
proof (induction rule: http_reach.induct)
  case start
  then show ?case
    by (simp add: history_ok_def http_run_def http_ops no_surroundings_def new_http_session_def Let_def)
next
  case (step w w')
  then have "phase_ok (phase_of w) w" using http_reach_inv by (auto simp: http_inv_def)
  with step show ?case by (blast intro: http_step_history)
qed

text \<open>
  C14: a connection implements its abstract machine: from every reachable situation, whatever
  ends and with whatever result, the session moves as \<open>conn_step\<close> allows.
\<close>

theorem http_session_refines:
  assumes "http_reach queue_limit is_upgrade w" "queue_limit \<noteq> 0" "http_step queue_limit is_upgrade w w'"
  shows "conn_step queue_limit (phase_of w) (phase_of w')"
  using http_reach_inv [OF assms(1,2)] http_step_phase [OF assms(3) _ assms(2)] phase_ok_of
  unfolding http_inv_def by metis

text \<open>
  C29: one request at a time: at most one operation is ever outstanding, so at most one request
  is in flight and one response queued, whatever the configured limit, and the unsigned
  counter of requests in flight is never decremented below zero.
\<close>

theorem http_one_request_at_a_time:
  assumes "http_reach queue_limit is_upgrade w" "queue_limit \<noteq> 0"
  shows "pending w \<le> 1 \<and> length (hs_queue (hw_session w)) \<le> 1 \<and> hs_inflight (hw_session w) \<le> 1"
proof -
  have "phase_ok (phase_of w) w" using http_reach_inv [OF assms] by (simp add: http_inv_def)
  then show ?thesis by (cases "phase_of w") (auto simp: phase_ok_def pending_def)
qed

text \<open>
  The next request is read only with a limit of one: after a response that keeps the
  connection alive has been written, a session with limit one reads again; with any other limit
  nothing is outstanding, no second read was ever started, and the last reference to the
  session is gone although the connection was not shut down.
\<close>

lemma http_keep_alive_needs_limit_one:
  assumes "http_reach queue_limit is_upgrade w" "queue_limit \<noteq> 0" "hw_writing w = [True]"
    "w' = perform (http_on_write queue_limit True Ok (hw_session w)) (w\<lparr>hw_writing := []\<rparr>)"
  shows "\<not> hw_closed w' \<and>
    (if queue_limit = 1 then hw_reads w' = 1 else pending w' = 0 \<and> hw_reads_started w' = 1)"
proof -
  from http_reach_inv [OF assms(1,2)] have inv: "phase_ok (phase_of w) w" "queue_limit \<noteq> 1 \<longrightarrow> hw_reads_started w = 1"
    by (simp_all add: http_inv_def)
  then have "phase_of w = Writing"
    using assms(3) by (cases "phase_of w") (auto simp: phase_ok_def pending_def)
  with inv assms(2,4) show ?thesis
    by (auto simp: phase_ok_def pending_def http_ops Let_def)
qed

text \<open>
  C33: the responses of a connection go out in the order of its requests, and each is the answer
  of its own request: the k-th response written is what the task of the k-th request gave, and
  no request is worked on before all earlier ones are answered and written.
\<close>

theorem http_answers_in_order:
  assumes "http_reach queue_limit is_upgrade w" "queue_limit \<noteq> 0"
  shows "map fst (hw_answers w) = take (length (hw_answers w)) (hw_requests w) \<and>
    hw_written w = take (length (hw_written w)) (map snd (hw_answers w)) \<and>
    length (hw_answers w) \<le> Suc (length (hw_written w)) \<and> length (hw_requests w) \<le> Suc (length (hw_written w)) \<and>
    (hw_tasks w = [] \<and> hw_posted w = [] \<longrightarrow> map fst (hw_answers w) = hw_requests w \<and> map snd (hw_answers w) = hw_written w)"
proof -
  have h: "hw_requests w = map fst (hw_answers w) @ hw_tasks w" "map snd (hw_answers w) = hw_written w @ hw_posted w"
    using http_reach_history [OF assms] by (simp_all add: history_ok_def)
  have "length (hw_tasks w) + length (hw_posted w) \<le> 1"
    using http_reach_inv [OF assms] by (cases "phase_of w") (auto simp: http_inv_def phase_ok_def pending_def)
  moreover have "length (hw_answers w) = length (hw_written w) + length (hw_posted w)"
    using arg_cong [OF h(2), of length] by simp
  ultimately show ?thesis using h by simp
qed

section \<open>How long a connection lives\<close>

inductive_cases conn_step_cases [elim!]: "conn_step queue_limit ph ph'"

fun phase_rank :: "phase \<Rightarrow> nat" where
  "phase_rank Reading = 0"
| "phase_rank Working = 1"
| "phase_rank Posted = 2"
| "phase_rank Writing = 3"
| "phase_rank Over = 4"

lemma conn_step_rank: "conn_step queue_limit ph ph' \<Longrightarrow> queue_limit \<noteq> 1 \<Longrightarrow> phase_rank ph < phase_rank ph'"
  by auto

lemma http_run_bounded:
  assumes "(http_step queue_limit is_upgrade ^^ n) (http_run queue_limit) w" "queue_limit \<noteq> 0" "queue_limit \<noteq> 1"
  shows "http_reach queue_limit is_upgrade w \<and> n \<le> phase_rank (phase_of w)"
  using assms
proof (induction n arbitrary: w)
  case 0
  then show ?case by (auto intro: http_reach.start)
next
  case (Suc n)
  then obtain v where v: "(http_step queue_limit is_upgrade ^^ n) (http_run queue_limit) v"
    "http_step queue_limit is_upgrade v w" by auto
  with Suc have reach: "http_reach queue_limit is_upgrade v" "n \<le> phase_rank (phase_of v)" by auto
  then have "phase_ok (phase_of v) v" using http_reach_inv Suc.prems(2) by (simp add: http_inv_def)
  then have "conn_step queue_limit (phase_of v) (phase_of w)"
    using http_step_phase [OF v(2) _ Suc.prems(2)] phase_ok_of by metis
  with reach v(2) Suc.prems(3) show ?case by (auto intro: http_reach.step dest: conn_step_rank)
qed

text \<open>With a limit of one, a request that is no upgrade is served and the next read is started.\<close>

lemma http_round:
  assumes "phase_ok Reading w" "\<not> is_upgrade req"
  shows "\<exists>w'. (http_step 1 is_upgrade ^^ 4) w w' \<and> phase_ok Reading w' \<and>
    length (hw_written w') = Suc (length (hw_written w))"
proof -
  let ?r = "demo_response True"
  let ?w1 = "perform (http_on_read is_upgrade Ok req (hw_session w)) (w\<lparr>hw_reads := hw_reads w - 1\<rparr>)"
  let ?w2 = "perform (hw_session ?w1, queue_response_from_worker ?r)
    (?w1\<lparr>hw_tasks := remove_nth 0 (hw_tasks ?w1), hw_answers := hw_answers ?w1 @ [(hw_tasks ?w1 ! 0, ?r)]\<rparr>)"
  let ?w3 = "perform (http_queue_write ?r (hw_session ?w2)) (?w2\<lparr>hw_posted := []\<rparr>)"
  let ?w4 = "perform (http_on_write 1 (hw_writing ?w3 ! 0) Ok (hw_session ?w3)) (?w3\<lparr>hw_writing := remove_nth 0 (hw_writing ?w3)\<rparr>)"
  from assms have w: "hw_reads w = 1" "hw_tasks w = []" "hw_posted w = []" "hw_writing w = []"
    "hs_queue (hw_session w) = []" "hs_inflight (hw_session w) = 0" "\<not> hw_closed w"
    by (simp_all add: phase_ok_def)
  note ops = http_ops Let_def demo_response_def
  have "http_step 1 is_upgrade w ?w1" using w by (intro http_step.read_ends) simp
  moreover have "http_step 1 is_upgrade ?w1 ?w2"
    using w assms(2) by (intro http_step.task_ends) (simp add: ops)
  moreover have "http_step 1 is_upgrade ?w2 ?w3"
    using w assms(2) by (intro http_step.posted_runs) (simp add: ops)
  moreover have "http_step 1 is_upgrade ?w3 ?w4"
    using w assms(2) by (intro http_step.write_ends) (simp add: ops)
  ultimately have "(http_step 1 is_upgrade ^^ 4) w ?w4"
    by (auto simp: numeral_eq_Suc intro!: relcomppI)
  moreover have "phase_ok Reading ?w4" "length (hw_written ?w4) = Suc (length (hw_written w))"
    using w assms(2) by (simp_all add: phase_ok_def ops)
  ultimately show ?thesis by blast
qed

lemma http_rounds:
  assumes "\<not> is_upgrade req"
  shows "\<exists>w. (http_step 1 is_upgrade ^^ (4 * k)) (http_run 1) w \<and> phase_ok Reading w \<and> length (hw_written w) = k"
proof (induction k)
  case 0
  have "phase_ok Reading (http_run 1)" "hw_written (http_run 1) = []"
    by (simp_all add: phase_ok_def http_run_def http_ops no_surroundings_def new_http_session_def Let_def)
  then show ?case by auto
next
  case (Suc k)
  then obtain w where w: "(http_step 1 is_upgrade ^^ (4 * k)) (http_run 1) w" "phase_ok Reading w"
    "length (hw_written w) = k" by blast
  with http_round [of w is_upgrade req] assms obtain w' where w': "(http_step 1 is_upgrade ^^ 4) w w'"
    "phase_ok Reading w'" "length (hw_written w') = Suc k" by auto
  from w(1) w'(1) have "(http_step 1 is_upgrade ^^ (4 * k + 4)) (http_run 1) w'"
    unfolding relpowp_add by blast
  with w' show ?case by (auto simp: add.commute)
qed

text \<open>
  C34: the configured limit decides how long a connection lives: with a limit of one it can serve
  any number of requests, with any larger limit every run ends after at most four completions,
  having started one read and answered at most one request, even if all ask to be kept alive.
\<close>

theorem http_requests_per_connection:
  assumes "\<not> is_upgrade req" "queue_limit \<noteq> 0"
  shows "if queue_limit = 1
    then \<forall>k. \<exists>w. (http_step queue_limit is_upgrade ^^ (4 * k)) (http_run queue_limit) w \<and> length (hw_written w) = k
    else \<forall>n w. (http_step queue_limit is_upgrade ^^ n) (http_run queue_limit) w \<longrightarrow>
      n \<le> 4 \<and> hw_reads_started w = 1 \<and> length (hw_requests w) \<le> 1"
proof (cases "queue_limit = 1")
  case True
  then show ?thesis using http_rounds [of is_upgrade req] assms(1) by auto
next
  case False
  { fix n w assume run: "(http_step queue_limit is_upgrade ^^ n) (http_run queue_limit) w"
    then have w: "http_reach queue_limit is_upgrade w" "n \<le> phase_rank (phase_of w)"
      using http_run_bounded assms(2) False by blast+
    have "hw_reads_started w = 1" using http_reach_inv [OF w(1) assms(2)] False by (simp add: http_inv_def)
    moreover have "length (hw_requests w) \<le> hw_reads_started w"
      using http_reach_history [OF w(1) assms(2)] unfolding history_ok_def by linarith
    moreover have "n \<le> 4" using w(2) by (cases "phase_of w") auto
    ultimately have "n \<le> 4 \<and> hw_reads_started w = 1 \<and> length (hw_requests w) \<le> 1" by simp }
  with False show ?thesis by simp
qed

text \<open>A run with limit 2: one request, whose response keeps the connection alive, is being written.\<close>

definition demo_request :: http_request where
  "demo_request = \<lparr>rq_method = Get, rq_target = ''/'', rq_version = 11, rq_keep_alive = True,
     rq_authorization = None, rq_body = []\<rparr>"

definition demo_world :: "http_session \<Rightarrow> http_request list \<Rightarrow> response list \<Rightarrow> bool list \<Rightarrow> http_world" where
  "demo_world s tasks posted writing = \<lparr>hw_session = s, hw_reads = 0, hw_tasks = tasks, hw_posted = posted,
     hw_writing = writing, hw_reads_started = 1, hw_requests = [demo_request],
     hw_answers = (if tasks = [] then [(demo_request, demo_response True)] else []),
     hw_written = (if writing = [] then [] else [demo_response True]), hw_closed = False, hw_upgraded = False\<rparr>"

definition demo_busy :: "response list \<Rightarrow> http_session" where
  "demo_busy q = \<lparr>hs_inflight = 1, hs_queue = q, hs_parser = None\<rparr>"

lemma demo_steps:
  "http_reach 2 (\<lambda>r. False) (demo_world (demo_busy []) [demo_request] [] [])"
  "http_step 2 (\<lambda>r. False) (demo_world (demo_busy []) [demo_request] [] []) (demo_world (demo_busy []) [] [demo_response True] [])"
  "http_step 2 (\<lambda>r. False) (demo_world (demo_busy []) [] [demo_response True] [])
     (demo_world (demo_busy [demo_response True]) [] [] [True])"
proof -
  have run: "http_run 2 = \<lparr>hw_session = \<lparr>hs_inflight = 0, hs_queue = [], hs_parser = Some 10000\<rparr>, hw_reads = 1,
      hw_tasks = [], hw_posted = [], hw_writing = [], hw_reads_started = 1, hw_requests = [], hw_answers = [],
      hw_written = [], hw_closed = False, hw_upgraded = False\<rparr>"
    by (simp add: http_run_def http_ops new_http_session_def no_surroundings_def Let_def)
  then have "http_step 2 (\<lambda>r. False) (http_run 2) (demo_world (demo_busy []) [demo_request] [] [])"
    using http_step.read_ends [of "http_run 2" 2 "\<lambda>r. False" Ok demo_request]
    by (simp add: http_ops demo_world_def demo_busy_def)
  then show "http_reach 2 (\<lambda>r. False) (demo_world (demo_busy []) [demo_request] [] [])"
    by (rule http_reach.step [OF http_reach.start])
  show "http_step 2 (\<lambda>r. False) (demo_world (demo_busy []) [demo_request] [] []) (demo_world (demo_busy []) [] [demo_response True] [])"
    using http_step.task_ends [of 0 "demo_world (demo_busy []) [demo_request] [] []" 2 "\<lambda>r. False" "demo_response True"]
    by (simp add: http_ops demo_world_def)
  show "http_step 2 (\<lambda>r. False) (demo_world (demo_busy []) [] [demo_response True] [])
     (demo_world (demo_busy [demo_response True]) [] [] [True])"
    using http_step.posted_runs [of "demo_world (demo_busy []) [] [demo_response True] []" "demo_response True" "[]" 2 "\<lambda>r. False"]
    by (simp add: http_ops demo_world_def demo_busy_def demo_response_def Let_def)
qed

lemma demo_reach: "http_reach 2 (\<lambda>r. False) (demo_world (demo_busy [demo_response True]) [] [] [True])"
  using demo_steps by (blast intro: http_reach.step)

lemma http_session_refines_witness: "conn_step 2 Working Posted"
  using http_session_refines [OF demo_steps(1) _ demo_steps(2)] by (simp add: phase_of_def demo_world_def)

lemma http_one_request_at_a_time_witness:
  "pending (demo_world (demo_busy [demo_response True]) [] [] [True]) \<le> 1"
  using http_one_request_at_a_time [OF demo_reach] by simp

lemma http_answers_in_order_witness:
  "\<exists>w. http_reach 2 (\<lambda>r. False) w \<and> hw_requests w = [demo_request] \<and> hw_written w = [demo_response True] \<and>
     map fst (hw_answers w) = hw_requests w \<and> map snd (hw_answers w) = hw_written w"
  using http_answers_in_order [OF demo_reach]
  by (intro exI [of _ "demo_world (demo_busy [demo_response True]) [] [] [True]"] conjI demo_reach)
    (simp_all add: demo_world_def)

lemma http_requests_per_connection_witness:
  "(\<exists>w. (http_step 1 (\<lambda>r. False) ^^ 400) (http_run 1) w \<and> length (hw_written w) = 100) \<and>
   \<not> (\<exists>w. (http_step 2 (\<lambda>r. False) ^^ 5) (http_run 2) w)"
proof (rule conjI)
  show "\<exists>w. (http_step 1 (\<lambda>r. False) ^^ 400) (http_run 1) w \<and> length (hw_written w) = 100"
    using http_requests_per_connection [of "\<lambda>r. False" demo_request 1, simplified, THEN spec [of _ 100]] by simp
  show "\<not> (\<exists>w. (http_step 2 (\<lambda>r. False) ^^ 5) (http_run 2) w)"
    using http_requests_per_connection [of "\<lambda>r. False" demo_request 2] by fastforce
qed

end
