(* ===== verification/Logging.thy ===== *)
theory Logging
  imports Prelude
begin

text \<open>
  \<open>TinychatServer::init_log\<close> and the destructor of \<open>TinychatServer\<close>,
  \<open>src/src/tinychat_server.cpp\<close>, as the calls they make into spdlog, in order. What a call does is
  the library's affair; it can throw, and then the calls after it are not made. Single log lines
  are left out.
\<close>

section \<open>Calls\<close>

datatype log_level = Level_debug | Level_info | Level_err

datatype spdlog_call =
    Init_thread_pool nat nat  \<comment> \<open>size of the queue, number of threads\<close>
  | New_daily_sink string nat nat bool  \<comment> \<open>\<open>daily_sink\<close>: file, hour and minute of rotation, truncate\<close>
  | Sink_level log_level  \<comment> \<open>of \<open>daily_sink\<close>\<close>
  | Create_async_logger string string nat nat  \<comment> \<open>\<open>async_logger\<close>: name, file, hour, minute\<close>
  | Logger_level log_level  \<comment> \<open>of \<open>async_logger\<close>\<close>
  | Default_logger  \<comment> \<open>it becomes the default\<close>
  | Pattern string
  | Flush_every nat  \<comment> \<open>seconds\<close>
  | Flush_on log_level
  | Flush_default
  | Shutdown_logging

definition init_log :: "bool \<Rightarrow> string \<Rightarrow> spdlog_call list" where
  "init_log ndebug log_file =
     [Init_thread_pool 8192 1,
      New_daily_sink log_file 0 0 True,
      Sink_level (if \<not> ndebug then Level_debug else Level_info),
      Create_async_logger ''daily_logger'' log_file 0 0,
      Logger_level (if \<not> ndebug then Level_debug else Level_info),
      Default_logger,
      Pattern ''[%Y-%m-%d %H:%M:%S.%e] [%l] [thread %t] %v'',
      Flush_every 5,
      Flush_on (if \<not> ndebug then Level_debug else Level_err)]"

definition server_dtor :: "spdlog_call list" where
  "server_dtor = [Flush_default, Shutdown_logging]"

text \<open>Making calls one after the other; the state is the list of the calls that returned.\<close>

fun spdlog_run :: "(spdlog_call \<Rightarrow> exn + unit) \<Rightarrow> spdlog_call list \<Rightarrow> (spdlog_call list, unit) prog" where
  "spdlog_run result [] = ret ()"
| "spdlog_run result (c # cs) =
     andthen (lift (of_sum (result c))) (\<lambda>_. andthen (modify (\<lambda>made. made @ [c])) (\<lambda>_. spdlog_run result cs))"

section \<open>Lemmas\<close>

text \<open>The calls that were made are those before the first that throws.\<close>

lemma spdlog_run_calls:
  "snd (spdlog_run result cs made) = made @ takeWhile (\<lambda>c. result c = Inr ()) cs \<and>
   (fst (spdlog_run result cs made) = Ret () \<longleftrightarrow> (\<forall>c \<in> set cs. result c = Inr ()))"
proof (induction cs arbitrary: made)
  case (Cons c cs)
  then show ?case
    by (cases "result c") (simp_all add: andthen_def lift_def modify_def)
qed (simp add: ret_def)

lemma spdlog_run_Ret: "spdlog_run result cs made = (Ret (), t) \<Longrightarrow> t = made @ cs"
  using spdlog_run_calls [of result cs made] by (auto simp: takeWhile_eq_all_conv)

lemma spdlog_run_quiet [simp]: "spdlog_run (\<lambda>c. Inr ()) cs made = (Ret (), made @ cs)"
  by (induction cs arbitrary: made) (simp_all add: andthen_def lift_def modify_def ret_def)

lemma spdlog_run_fails: "fst (spdlog_run result cs made) \<noteq> Ret () \<Longrightarrow> \<exists>e. fst (spdlog_run result cs made) = Throw e"
proof (induction cs arbitrary: made)
  case (Cons c cs)
  then show ?case
    by (cases "result c") (simp_all add: andthen_def lift_def modify_def)
qed (simp add: ret_def)

text \<open>
  The sink that \<open>init_log\<close> makes is given a level and nothing else, but it is made with
  \<open>truncate\<close> before the logger opens the same file: of each kind of object there is one.
\<close>

lemma init_log_truncates_first:
  "\<exists>before after. init_log ndebug f = before @ New_daily_sink f 0 0 True # after \<and>
     Create_async_logger ''daily_logger'' f 0 0 \<in> set after \<and>
     (\<forall>c \<in> set before. \<forall>n g h m. c \<noteq> Create_async_logger n g h m)"
  by (rule exI [of _ "[Init_thread_pool 8192 1]"]) (simp add: init_log_def)

end
