(* ===== verification/Server.thy ===== *)
theory Server
  imports HttpSession Config Logging
begin

text \<open>
  Starting the server and accepting connections: \<open>Listener\<close> of \<open>src/src/core/listener.hpp\<close>
  and \<open>listener.cpp\<close>, \<open>TinychatServer\<close> of \<open>src/src/tinychat_server.cpp\<close> and \<open>main\<close> of
  \<open>src/src/main.cpp\<close>. The process is the four pieces of global state side by side; each step
  of the start runs the component's own operation on its piece. spdlog, the parser of
  addresses, the acceptor and the arrival of a signal are parameters.
\<close>

section \<open>The listener\<close>

datatype acceptor_call = Acceptor_open | Acceptor_reuse_address | Acceptor_bind | Acceptor_listen

text \<open>The constructor: the calls that succeeded; it returns at the first that does not.\<close>

fun try_calls :: "(acceptor_call \<Rightarrow> error_code) \<Rightarrow> acceptor_call list \<Rightarrow> acceptor_call list" where
  "try_calls result [] = []"
| "try_calls result (c # cs) = (if result c \<noteq> Ok then [] else c # try_calls result cs)"

record listener =
  ls_endpoint :: "string \<times> u16"
  ls_doc_root :: string
  ls_calls :: "acceptor_call list"

definition new_listener :: "(acceptor_call \<Rightarrow> error_code) \<Rightarrow> string \<times> u16 \<Rightarrow> string \<Rightarrow> listener" where
  "new_listener result endpoint doc_root =
     \<lparr>ls_endpoint = endpoint, ls_doc_root = doc_root,
      ls_calls = try_calls result [Acceptor_open, Acceptor_reuse_address, Acceptor_bind, Acceptor_listen]\<rparr>"

datatype listener_effect = Accept_next | Run_session string

definition listener_do_accept :: "listener_effect list" where
  "listener_do_accept = [Accept_next]"

definition listener_run :: "listener_effect list" where
  "listener_run = listener_do_accept"

text \<open>How one accept ends: its error code, and what the socket then says of its peer.\<close>

type_synonym accept_end = "error_code \<times> (exn + string) \<times> (exn + u16)"

definition listener_on_accept :: "listener \<Rightarrow> accept_end \<Rightarrow> listener_effect list outcome" where
  "listener_on_accept l a =
     (case a of (ec, address, port) \<Rightarrow>
       if ec \<noteq> Ok then Ret []
       else obind (http_session_ctor address port) (\<lambda>_. Ret (Run_session (ls_doc_root l) # listener_do_accept)))"

text \<open>
  The life of a listener: how each accept ends, as long as one is outstanding. The result is the
  sessions started and whether an accept is outstanding in the end, or the exception that left
  \<open>on_accept\<close>.
\<close>

definition sessions_of :: "listener_effect list \<Rightarrow> listener_effect list" where
  "sessions_of es = filter (\<lambda>e. e \<noteq> Accept_next) es"

fun listener_life :: "listener \<Rightarrow> accept_end list \<Rightarrow> listener_effect list \<Rightarrow> (listener_effect list \<times> bool) outcome" where
  "listener_life l [] es = Ret (sessions_of es, Accept_next \<in> set es)"
| "listener_life l (a # as) es =
     (if Accept_next \<in> set es
      then obind (listener_on_accept l a) (\<lambda>es'. obind (listener_life l as es') (\<lambda>(started, still).
             Ret (sessions_of es @ started, still)))
      else Ret (sessions_of es, False))"

text \<open>The accepts up to the first error, and those among them whose peer is still there.\<close>

definition connections_in :: "accept_end list \<Rightarrow> accept_end list" where
  "connections_in as = takeWhile (\<lambda>a. fst a = Ok) as"

fun peer_known :: "accept_end \<Rightarrow> bool" where
  "peer_known (ec, Inr address, Inr port) = True"
| "peer_known _ = False"

lemma connections_in_simps [simp]:
  "connections_in [] = []" "connections_in (a # as) = (if fst a = Ok then a # connections_in as else [])"
  by (simp_all add: connections_in_def)

lemma listener_on_accept_cases:
  "listener_on_accept l a =
     (if fst a \<noteq> Ok then Ret [] else if peer_known a then Ret (Run_session (ls_doc_root l) # listener_do_accept)
      else Throw (case a of (_, Inl e, _) \<Rightarrow> e | (_, Inr _, Inl e) \<Rightarrow> e))"
  by (cases a rule: peer_known.cases) (auto simp: listener_on_accept_def http_session_ctor_def split: sum.splits)

lemma listener_life_run:
  "list_all peer_known (connections_in as) \<Longrightarrow> listener_life l as (Run_session d # listener_do_accept) =
     Ret (Run_session d # map (\<lambda>_. Run_session (ls_doc_root l)) (connections_in as), list_all (\<lambda>a. fst a = Ok) as)"
proof (induction as arbitrary: d)
  case (Cons a as)
  then show ?case
    by (cases "fst a = Ok"; cases as) (simp_all add: listener_on_accept_cases listener_do_accept_def sessions_of_def)
qed (simp add: listener_do_accept_def sessions_of_def)

text \<open>
  A listener accepts until the first error and never again: whatever the errors of later
  accepts would be, the sessions started are those of the accepts before the first error, and an
  accept is outstanding exactly while there was none.
\<close>

theorem listener_stops_at_first_error:
  assumes "list_all peer_known (connections_in as)"
  shows "listener_life l as listener_run =
     Ret (map (\<lambda>_. Run_session (ls_doc_root l)) (connections_in as), list_all (\<lambda>a. fst a = Ok) as)"
  using assms listener_life_run [of "tl as" l "ls_doc_root l"]
  by (cases as; cases "tl as")
    (auto simp: listener_run_def listener_do_accept_def listener_on_accept_cases sessions_of_def)

text \<open>One accepted peer that has gone already, and the exception leaves the listener.\<close>

lemma listener_life_vanished:
  assumes "\<not> list_all peer_known (connections_in as)" "Accept_next \<in> set es"
  shows "\<exists>e. listener_life l as es = Throw e"
  using assms
proof (induction as arbitrary: es)
  case (Cons a as)
  let ?next = "Run_session (ls_doc_root l) # listener_do_accept"
  show ?case
  proof (cases "fst a = Ok \<and> peer_known a")
    case True
    with Cons.prems(1) have "\<not> list_all peer_known (connections_in as)" by simp
    then obtain e where "listener_life l as ?next = Throw e"
      using Cons.IH [of ?next] by (auto simp: listener_do_accept_def)
    then show ?thesis using True Cons.prems(2) by (simp add: listener_on_accept_cases)
  next
    case False
    with Cons.prems show ?thesis by (auto simp: listener_on_accept_cases split: if_splits)
  qed
qed simp

lemma listener_life_outcome:
  "(\<exists>x. listener_life l as listener_run = Ret x) \<or> (\<exists>e. listener_life l as listener_run = Throw e)"
  using listener_stops_at_first_error [of as l] listener_life_vanished [of as listener_run l]
  by (auto simp: listener_run_def listener_do_accept_def)

section \<open>The process\<close>

record ('w, 't) process =
  pr_config :: "app_config option"
  pr_sys :: "'w sys"
  pr_workers :: "'t pool option"
  pr_listener :: "listener option"
  pr_io_threads :: nat  \<comment> \<open>threads inside \<open>ioc_.run()\<close>\<close>
  pr_accepting :: bool
  pr_sessions :: "listener_effect list"  \<comment> \<open>connections whose session was started\<close>
  pr_stopped :: bool  \<comment> \<open>of \<open>ioc_\<close>\<close>
  pr_logger :: "spdlog_call list"

text \<open>An operation of a component, run on its part of the process.\<close>

definition on_part :: "('p \<Rightarrow> 's) \<Rightarrow> ('s \<Rightarrow> 'p \<Rightarrow> 'p) \<Rightarrow> ('s, 'a) prog \<Rightarrow> ('p, 'a) prog" where
  "on_part part put m p = (case m (part p) of (r, s) \<Rightarrow> (r, put s p))"

abbreviation (input) on_config :: "(app_config option, 'a) prog \<Rightarrow> (('w, 't) process, 'a) prog" where
  "on_config \<equiv> on_part pr_config (\<lambda>c. pr_config_update (\<lambda>_. c))"

abbreviation (input) on_sys :: "('w sys, 'a) prog \<Rightarrow> (('w, 't) process, 'a) prog" where
  "on_sys \<equiv> on_part pr_sys (\<lambda>s. pr_sys_update (\<lambda>_. s))"

abbreviation (input) on_workers :: "('t pool option, 'a) prog \<Rightarrow> (('w, 't) process, 'a) prog" where
  "on_workers \<equiv> on_part pr_workers (\<lambda>w. pr_workers_update (\<lambda>_. w))"

abbreviation (input) on_logger :: "(spdlog_call list, 'a) prog \<Rightarrow> (('w, 't) process, 'a) prog" where
  "on_logger \<equiv> on_part pr_logger (\<lambda>l. pr_logger_update (\<lambda>_. l))"

text \<open>
  What the start and the end call outside the repository. \<open>bt_accepts\<close> is how the accepts end while
  the server runs and \<open>bt_signal\<close> the signal that arrives then, if there is one; \<open>bt_ndebug\<close> and
  \<open>bt_windows\<close> are the build.
\<close>

record 'w boot =
  bt_file_exists :: "string \<Rightarrow> bool"
  bt_read_ini :: "string \<Rightarrow> ptree outcome"
  bt_ndebug :: bool
  bt_windows :: bool
  bt_indeterminate :: u64
  bt_spdlog :: "spdlog_call \<Rightarrow> exn + unit"
  bt_make_address :: "string \<Rightarrow> exn + string"
  bt_acceptor :: "acceptor_call \<Rightarrow> error_code"
  bt_mysql :: "'w mysql"
  bt_clock :: "nat \<Rightarrow> u64"
  bt_accepts :: "accept_end list"
  bt_signal :: "int option"

text \<open>The constructor of \<open>TinychatServer\<close>; the result of \<open>sodium_init\<close> is not looked at.\<close>

definition server_ctor :: "'w boot \<Rightarrow> (('w, 't) process, unit) prog" where
  "server_ctor B =
     andthen (on_config config_get) (\<lambda>cfg. let sv = ac_server cfg in
     andthen (on_logger (spdlog_run (bt_spdlog B) (init_log (bt_ndebug B) (sv_log_file sv)))) (\<lambda>_.
     andthen (on_sys (sql_pool_init (bt_mysql B) (ac_database cfg))) (\<lambda>_.
     andthen (on_workers (pool_init (unat (sv_worker_threads sv)))) (\<lambda>_.
     andthen (on_sys (on_sf (sf_init (bt_clock B) (sv_service_id sv) (sv_custom_epoch sv)))) (\<lambda>_.
     andthen (lift (of_sum (bt_make_address B (sv_host sv)))) (\<lambda>address.
       modify (\<lambda>p. p\<lparr>pr_listener :=
         Some (new_listener (bt_acceptor B) (address, sv_port sv) (sv_doc_root sv))\<rparr>)))))))"

text \<open>
  \<open>run\<close>: accepting starts, \<open>io_threads\<close> threads and the main thread run the context. The wait for
  a signal keeps the context busy, so they stay in it until a signal comes, whose handler stops it;
  then all return and are joined. An exception of a handler leaves \<open>ioc_.run()\<close>: on one of the
  \<open>io_threads\<close> nothing catches it, and on the main thread it destroys the vector of threads, which are
  still joinable; both end the process, unless there are no such threads.
\<close>

definition on_signal :: "int \<Rightarrow> (('w, 't) process, unit) prog" where
  "on_signal signal_number = modify (\<lambda>p. p\<lparr>pr_stopped := True\<rparr>)"

definition server_accepts :: "'w boot \<Rightarrow> listener \<Rightarrow> u32 \<Rightarrow> (('w, 't) process, unit) prog" where
  "server_accepts B l io_threads =
     andthen (lift (case listener_life l (bt_accepts B) listener_run of
         Throw e \<Rightarrow> if io_threads = 0 then Throw e else Terminate
       | r \<Rightarrow> r)) (\<lambda>(started, still). modify (\<lambda>p. p\<lparr>pr_sessions := started, pr_accepting := still\<rparr>))"

definition server_run :: "'w boot \<Rightarrow> (('w, 't) process, unit) prog" where
  "server_run B =
     andthen (gets pr_listener) (\<lambda>listener. case listener of None \<Rightarrow> undef | Some l \<Rightarrow>
     andthen (modify (\<lambda>p. p\<lparr>pr_accepting := (Accept_next \<in> set listener_run)\<rparr>)) (\<lambda>_.
     andthen (on_config config_get) (\<lambda>cfg. let io_threads = sv_io_threads (ac_server cfg) in
     andthen (modify (\<lambda>p. p\<lparr>pr_io_threads := unat io_threads + 1\<rparr>)) (\<lambda>_.
     andthen (server_accepts B l io_threads) (\<lambda>_.
     case bt_signal B of
       None \<Rightarrow> lift Hang
     | Some signal_number \<Rightarrow> andthen (on_signal signal_number) (\<lambda>_. modify (\<lambda>p. p\<lparr>pr_io_threads := 0\<rparr>)))))))"

text \<open>
  \<open>main\<close>: the server is a local object, so its destructor runs when \<open>run\<close> returned or threw,
  but not when the constructor threw.
\<close>

definition main_function :: "'w boot \<Rightarrow> string list \<Rightarrow> (('w, 't) process, int) prog" where
  "main_function B argv =
     (if bt_ndebug B \<and> length argv < 2 then ret 1
      else try_catch
        (andthen (on_config (config_init (bt_file_exists B) (bt_read_ini B) (bt_windows B) (bt_indeterminate B)
            (if bt_ndebug B then argv ! 1 else ''../../doc/config.ini''))) (\<lambda>_.
         andthen (server_ctor B) (\<lambda>_.
         andthen (with_dtor (server_run B) (on_logger (spdlog_run (bt_spdlog B) server_dtor))) (\<lambda>_. ret 0))))
        (\<lambda>e. ret 1))"

text \<open>The static objects before \<open>main\<close>.\<close>

definition new_process :: "'w \<Rightarrow> ('w, 't) process" where
  "new_process w = \<lparr>pr_config = None,
     pr_sys = \<lparr>db_world = w, db_pool = new_sql_pool, db_conns = [], db_log = [], sys_sf = sf_initial,
       sys_sessions = (\<lambda>_. None), sys_alive = (\<lambda>_. False)\<rparr>,
     pr_workers = None, pr_listener = None, pr_io_threads = 0, pr_accepting = False, pr_sessions = [],
     pr_stopped = False, pr_logger = []\<rparr>"

section \<open>A server that has started\<close>

lemma on_part_Ret:
  "on_part part put m p = (Ret x, q) \<longleftrightarrow> (\<exists>s. m (part p) = (Ret x, s) \<and> q = put s p)"
  by (auto simp: on_part_def split: prod.splits)

lemma on_sf_Ret:
  "on_sf m s = (Ret x, t) \<longleftrightarrow> (\<exists>sf. m (sys_sf s) = (Ret x, sf) \<and> t = s\<lparr>sys_sf := sf\<rparr>)"
  by (auto simp: on_sf_def split: prod.splits)

lemma connect_all_Ret:
  fixes s t :: "'w sys"
  assumes "connect_all M args n s = (Ret (), t)"
  shows "sp_smph (db_pool t) = sp_smph (db_pool s) \<and>
    length (sp_queue (db_pool t)) = length (sp_queue (db_pool s)) + n \<and> sys_sf t = sys_sf s \<and> db_conns t = db_conns s"
  using assms
proof (induction n arbitrary: s)
  case (Suc n)
  then obtain c w u where c: "my_connect M args (db_world s) = (Inr c, w)"
    and u: "on_pool (push_conn c) (s\<lparr>db_world := w\<rparr>) = (Ret (), u)" "connect_all M args n u = (Ret (), t)"
    by (auto simp: andthen_eq_Ret db_call_def split: prod.splits)
  from u(1) have "db_pool u = (db_pool s)\<lparr>sp_queue := sp_queue (db_pool s) @ [c]\<rparr>" "sys_sf u = sys_sf s"
    "db_conns u = db_conns s"
    by (auto simp: on_pool_def push_conn_def)
  with Suc.IH [OF u(2)] show ?case by simp
qed (simp add: ret_def)

lemma sql_pool_init_Ret:
  fixes s t :: "'w sys"
  assumes "sql_pool_init M D s = (Ret (), t)" "sp_queue (db_pool s) = []"
  shows "db_pool_max_size D \<le> 4096" "sp_smph (db_pool t) = Some (nat (db_pool_max_size D))" "pool_ok t" "sys_sf t = sys_sf s" "db_conns t = db_conns s"
proof -
  let ?n = "nat (db_pool_max_size D)"
  from assms(1) have le: "0 \<le> db_pool_max_size D" "db_pool_max_size D \<le> 4096"
    by (auto simp: sql_pool_init_def andthen_def modify_def undef_def split: if_splits)
  then obtain u where u: "connect_all M (connection_properties D) ?n u = (Ret (), t)"
    "db_pool u = (db_pool s)\<lparr>sp_max_conn := db_pool_max_size D, sp_smph := Some ?n\<rparr>" "sys_sf u = sys_sf s" "db_conns u = db_conns s"
    using assms(1) by (auto simp: sql_pool_init_def andthen_def modify_def gets_def raise_def split: if_splits)
  from connect_all_Ret [OF u(1)] u(2-4) assms(2) le(2)
  show "db_pool_max_size D \<le> 4096" "sp_smph (db_pool t) = Some ?n" "pool_ok t" "sys_sf t = sys_sf s" "db_conns t = db_conns s"
    by (simp_all add: pool_ok_def)
qed

lemma server_ctor_Ret:
  fixes q :: "('w, 't) process"
  assumes "server_ctor B ((new_process w)\<lparr>pr_config := Some cfg\<rparr>) = (Ret (), q)"
    "clock_ok (bt_clock B) (sv_custom_epoch (ac_server cfg))"
  shows "pool_ok (pr_sys q)" "db_conns (pr_sys q) = []" "sf_inv (bt_clock B) (sys_sf (pr_sys q))"
    "sp_smph (db_pool (pr_sys q)) = Some (nat (db_pool_max_size (ac_database cfg)))"
    "db_pool_max_size (ac_database cfg) \<le> 4096"
    "pr_workers q = Some (new_pool (unat (sv_worker_threads (ac_server cfg))))" "pr_config q = Some cfg"
proof -
  let ?S = "ac_server cfg"
  from assms(1) obtain s sf where s: "sql_pool_init (bt_mysql B) (ac_database cfg) (pr_sys (new_process w)) = (Ret (), s)"
    and sf: "sf_init (bt_clock B) (sv_service_id ?S) (sv_custom_epoch ?S) (sys_sf s) = (Ret (), sf)"
    and q: "pr_sys q = s\<lparr>sys_sf := sf\<rparr>" "pr_workers q = Some (new_pool (unat (sv_worker_threads ?S)))" "pr_config q = Some cfg"
    by (auto simp: server_ctor_def andthen_eq_Ret on_part_Ret on_sf_Ret config_get_def Let_def lift_def modify_def
        pool_init_def new_process_def)
  have init: "sp_queue (db_pool (pr_sys (new_process w))) = []" "sys_sf (pr_sys (new_process w)) = sf_initial"
    "db_conns (pr_sys (new_process w)) = []"
    by (simp_all add: new_process_def new_sql_pool_def)
  note pool = sql_pool_init_Ret [OF s init(1)]
  have "sf_inv (bt_clock B) sf" using sf_init_inv(1) [OF _ assms(2)] sf pool(4) init(2) by metis
  with q(1) show "sf_inv (bt_clock B) (sys_sf (pr_sys q))" by simp
  show "pool_ok (pr_sys q)" "db_conns (pr_sys q) = []"
    using pool(3,5) q(1) init(3) by (simp_all add: pool_ok_def)
  show "sp_smph (db_pool (pr_sys q)) = Some (nat (db_pool_max_size (ac_database cfg)))"
    "db_pool_max_size (ac_database cfg) \<le> 4096" using pool(1,2) q(1) by simp_all
qed (use assms(1) in \<open>auto simp: server_ctor_def andthen_eq_Ret on_part_Ret config_get_def Let_def lift_def
  modify_def pool_init_def new_process_def\<close>)


definition demo_config :: app_config where
  "demo_config = \<lparr>ac_server = env_server (demo_env dead_mysql), ac_database = env_db (demo_env dead_mysql)\<rparr>"

definition demo_boot :: "unit boot" where
  "demo_boot = \<lparr>bt_file_exists = (\<lambda>f. True), bt_read_ini = (\<lambda>f. Throw (PtreeError ''empty'')), bt_ndebug = True, bt_windows = False,
     bt_indeterminate = 0, bt_spdlog = (\<lambda>c. Inr ()), bt_make_address = (\<lambda>h. Inr h), bt_acceptor = (\<lambda>c. Ok),
     bt_mysql = live_mysql (\<lambda>q. []) (\<lambda>q. 0), bt_clock = (\<lambda>n. 2), bt_accepts = [(Ok, Inr ''::1'', Inr 80)], bt_signal = Some 15\<rparr>"

text \<open>A server that has started.\<close>

definition demo_started :: "unit sys" where
  "demo_started = \<lparr>db_world = (), db_pool = \<lparr>sp_smph = Some 1, sp_max_conn = 1, sp_queue = [9]\<rparr>, db_conns = [], db_log = [],
     sys_sf = \<lparr>sf_service_id = 1, sf_sequence_id = 0, sf_last_timestamp = 2, sf_custom_epoch = 1, sf_ticks = 1\<rparr>,
     sys_sessions = (\<lambda>_. None), sys_alive = (\<lambda>_. False)\<rparr>"

lemma demo_start:
  "\<exists>q :: (unit, unit) process. server_ctor demo_boot ((new_process ())\<lparr>pr_config := Some demo_config\<rparr>) = (Ret (), q) \<and>
     pr_sys q = demo_started"
proof -
  have small: "\<not> 1024 \<le> (1 :: u64)" by (simp add: word_le_nat_alt)
  show ?thesis
    by (simp add: server_ctor_def on_part_def config_get_def demo_config_def demo_boot_def demo_defs run_defs
        sql_pool_init_def pool_init_def new_process_def new_sql_pool_def sf_init_def sf_initial_def time_gen_def small
        demo_started_def)
qed

lemma demo_clock_start: "clock_ok (bt_clock demo_boot) (sv_custom_epoch (ac_server demo_config))"
  by (simp add: demo_boot_def demo_config_def demo_env_def clock_ok_def)


text \<open>
  The configuration accepts pool sizes that the semaphore does not: its constructor is then called
  outside its precondition.
\<close>

lemma pool_size_above_semaphore:
  assumes "4096 < db_pool_max_size D"
  shows "fst (sql_pool_init M D s) = Undef"
  using assms by (simp add: sql_pool_init_def andthen_def modify_def undef_def)

text \<open>A configuration that cannot be loaded ends the program with 1, before a connection is made.\<close>

lemma main_bad_config:
  assumes "config_init (bt_file_exists B) (bt_read_ini B) (bt_windows B) (bt_indeterminate B) (argv ! 1) (pr_config p) =
      (Throw e, c)" "bt_ndebug B" "2 \<le> length argv"
  shows "main_function B argv p = (Ret 1, p\<lparr>pr_config := c\<rparr>)"
  using assms by (simp add: main_function_def try_catch_def andthen_def on_part_def ret_def)

section \<open>How the program ends\<close>

text \<open>What is true of the process when \<open>main\<close> returns 0.\<close>

definition clean_end :: "'w boot \<Rightarrow> ('w, 't) process \<Rightarrow> bool" where
  "clean_end B q \<longleftrightarrow> bt_signal B \<noteq> None \<and> pr_stopped q \<and> pr_io_threads q = 0 \<and>
     (\<exists>cfg made. pr_config q = Some cfg \<and> valid_config cfg \<and> pr_workers q \<noteq> None \<and> pr_listener q \<noteq> None \<and>
       length (pr_sessions q) = length (connections_in (bt_accepts B)) \<and> list_all peer_known (connections_in (bt_accepts B)) \<and>
       pr_logger q = made @ init_log (bt_ndebug B) (sv_log_file (ac_server cfg)) @ server_dtor)"

lemma server_ctor_parts:
  assumes "server_ctor B p = (Ret (), q)" "pr_config p = Some cfg"
  shows "pr_config q = Some cfg" "pr_workers q \<noteq> None" "pr_listener q \<noteq> None"
    "pr_logger q = pr_logger p @ init_log (bt_ndebug B) (sv_log_file (ac_server cfg))"
  using assms
  by (auto simp: server_ctor_def andthen_eq_Ret on_part_Ret config_get_def Let_def lift_def modify_def
      pool_init_def dest!: spdlog_run_Ret split: option.splits)

lemma server_accepts_Ret:
  assumes "server_accepts B l n p = (Ret (), q)"
  shows "list_all peer_known (connections_in (bt_accepts B)) \<and>
    q = p\<lparr>pr_sessions := map (\<lambda>_. Run_session (ls_doc_root l)) (connections_in (bt_accepts B)),
      pr_accepting := list_all (\<lambda>a. fst a = Ok) (bt_accepts B)\<rparr>"
proof (cases "list_all peer_known (connections_in (bt_accepts B))")
  case True
  with assms listener_stops_at_first_error [OF True, of l] show ?thesis
    by (auto simp: server_accepts_def andthen_def lift_def modify_def)
next
  case False
  then obtain e where "listener_life l (bt_accepts B) listener_run = Throw e"
    using listener_life_vanished [of "bt_accepts B" listener_run l] by (auto simp: listener_run_def listener_do_accept_def)
  with assms show ?thesis by (auto simp: server_accepts_def andthen_def lift_def split: if_splits)
qed

lemma server_run_Ret:
  assumes "server_run B p = (Ret (), q)"
  shows "\<exists>l. pr_listener p = Some l \<and> bt_signal B \<noteq> None \<and> list_all peer_known (connections_in (bt_accepts B)) \<and>
    q = p\<lparr>pr_sessions := map (\<lambda>_. Run_session (ls_doc_root l)) (connections_in (bt_accepts B)),
      pr_accepting := list_all (\<lambda>a. fst a = Ok) (bt_accepts B), pr_stopped := True, pr_io_threads := 0\<rparr>"
  using assms
  by (cases p)
    (auto simp: server_run_def andthen_eq_Ret on_part_Ret modify_def lift_def gets_def undef_def on_signal_def config_get_def
      Let_def dest!: server_accepts_Ret split: option.splits)

text \<open>
  C23: how the program ends: \<open>main\<close> never leaves by an exception and returns 0 or 1; it returns 0
  only after a signal, with a valid configuration, every part started, all threads out of the
  context, a session for every connection accepted before the first error, and the logger set up
  at the start and flushed and shut down at the end.
\<close>

theorem main_ends:
  fixes q :: "('w, 't) process"
  assumes "main_function B argv p = (r, q)"
  shows "(\<forall>e. r \<noteq> Throw e) \<and> (\<forall>n. r = Ret n \<longrightarrow> n = 0 \<or> n = 1) \<and> (r = Ret 0 \<longrightarrow> clean_end B q)"
proof -
  let ?load = "on_part pr_config (\<lambda>c. pr_config_update (\<lambda>_. c)) (config_init (bt_file_exists B) (bt_read_ini B)
    (bt_windows B) (bt_indeterminate B) (if bt_ndebug B then argv ! 1 else ''../../doc/config.ini''))"
  let ?dtor = "on_part pr_logger (\<lambda>l. pr_logger_update (\<lambda>_. l)) (spdlog_run (bt_spdlog B) server_dtor)"
  let ?body = "andthen ?load (\<lambda>_. andthen (server_ctor B) (\<lambda>_. andthen (with_dtor (server_run B) ?dtor) (\<lambda>_. ret (0 :: int))))"
  have zero: "clean_end B t" if "?body p = (Ret 0, t)" for t
  proof -
    from that obtain u v w where u: "?load p = (Ret (), u)" and v: "server_ctor B u = (Ret (), v)"
      and w: "server_run B v = (Ret (), w)" "?dtor w = (Ret (), t)"
      by (auto simp: andthen_eq_Ret with_dtor_eq_Ret ret_def)
    from u obtain cfg where cfg: "pr_config u = Some cfg" "valid_config cfg"
      by (auto simp: on_part_Ret config_init_Ret)
    note parts = server_ctor_parts [OF v cfg(1)]
    from w(2) have "t = w\<lparr>pr_logger := pr_logger w @ server_dtor\<rparr>"
      by (auto simp: on_part_Ret dest: spdlog_run_Ret)
    with server_run_Ret [OF w(1)] parts cfg(2) show ?thesis by (auto simp: clean_end_def)
  qed
  obtain x t where body: "?body p = (x, t)" by (cases "?body p")
  have num: "n = 0" if "?body p = (Ret n, t)" for n t
    using that by (auto simp: andthen_eq_Ret ret_def)
  have main: "main_function B argv p = (if bt_ndebug B \<and> length argv < 2 then ret 1 else try_catch ?body (\<lambda>e. ret 1)) p"
    by (simp add: main_function_def)
  show ?thesis
    using assms body zero num unfolding main
    by (cases x) (auto simp: try_catch_def ret_def split: if_splits)
qed

text \<open>A configuration file with every key, and a server started from it that a signal ends.\<close>

definition full_tree :: ptree where
  "full_tree = \<lparr>pt_int = (\<lambda>_. Ret 1), pt_string = (\<lambda>_. Ret ''x''), pt_u16 = (\<lambda>_. Ret 80),
     pt_u32 = (\<lambda>_. Ret 1), pt_u64 = (\<lambda>_. Ret 7)\<rparr>"

lemma main_ends_witness:
  "\<exists>q :: (unit, unit) process. main_function (demo_boot\<lparr>bt_read_ini := (\<lambda>f. Ret full_tree)\<rparr>) [''server'', ''c.ini'']
     (new_process ()) = (Ret 0, q) \<and> clean_end (demo_boot\<lparr>bt_read_ini := (\<lambda>f. Ret full_tree)\<rparr>) q"
proof -
  let ?B = "demo_boot\<lparr>bt_read_ini := (\<lambda>f. Ret full_tree)\<rparr>"
  have small: "\<not> 1024 \<le> (7 :: u64)" by (simp add: word_le_nat_alt)
  obtain q :: "(unit, unit) process" where q: "main_function ?B [''server'', ''c.ini''] (new_process ()) = (Ret 0, q)"
    by (simp add: main_function_def demo_boot_def config_init_cases config_items_def db_item_def sv_item_def setter_defs
        full_tree_def new_app_config_def server_ctor_def on_part_def config_get_def run_defs live_mysql_def small
        sql_pool_init_def pool_init_def new_process_def new_sql_pool_def sf_init_def sf_initial_def time_gen_def
        server_run_def on_signal_def server_accepts_def listener_on_accept_cases listener_run_def listener_do_accept_def
        sessions_of_def)
  with main_ends [OF q] show ?thesis by blast
qed

text \<open>
  C40: a client that connects and is gone again before its session is made ends the whole process: the
  log line of the session's constructor throws, no handler of the I/O context catches it,
  and the program terminates whatever else it was doing.
\<close>

theorem vanished_client_ends_server:
  assumes "bt_ndebug B" "2 \<le> length argv"
    "config_init (bt_file_exists B) (bt_read_ini B) (bt_windows B) (bt_indeterminate B) (argv ! 1) (pr_config p) = (Ret (), c)"
    "server_ctor B (p\<lparr>pr_config := c\<rparr>) = (Ret (), q)" "\<not> list_all peer_known (connections_in (bt_accepts B))"
  shows "fst (main_function B argv p) = Terminate"
proof -
  obtain cfg where cfg: "c = Some cfg" "sv_io_threads (ac_server cfg) \<noteq> 0"
    using assms(3) by (auto simp: config_init_Ret valid_config_def valid_sv_def)
  note parts = server_ctor_parts [OF assms(4), of cfg]
  from parts(3) cfg(1) obtain l where l: "pr_listener q = Some l" by auto
  obtain e where "listener_life l (bt_accepts B) listener_run = Throw e"
    using listener_life_vanished [OF assms(5), of listener_run l] by (auto simp: listener_run_def listener_do_accept_def)
  then have "fst (server_run B q) = Terminate"
    using l parts(1) cfg by (simp add: server_run_def server_accepts_def run_defs config_get_def on_part_def Let_def)
  with assms(1-4) show ?thesis
    by (cases "server_run B q") (simp add: main_function_def try_catch_def andthen_def on_part_def with_dtor_def)
qed

lemma vanished_client_ends_server_witness:
  "fst (main_function (demo_boot\<lparr>bt_read_ini := (\<lambda>f. Ret full_tree), bt_accepts := [(Ok, Inl (SystemError ''not connected''), Inr 80)]\<rparr>)
     [''server'', ''c.ini''] (new_process () :: (unit, unit) process)) = Terminate"
proof -
  let ?B = "demo_boot\<lparr>bt_read_ini := (\<lambda>f. Ret full_tree), bt_accepts := [(Ok, Inl (SystemError ''not connected''), Inr 80)]\<rparr>"
  have small: "\<not> 1024 \<le> (7 :: u64)" by (simp add: word_le_nat_alt)
  obtain c where c: "config_init (bt_file_exists ?B) (bt_read_ini ?B) (bt_windows ?B) (bt_indeterminate ?B) ''c.ini'' None = (Ret (), c)"
    by (simp add: demo_boot_def config_init_cases config_items_def db_item_def sv_item_def setter_defs full_tree_def new_app_config_def)
  obtain q :: "(unit, unit) process" where q: "server_ctor ?B ((new_process ())\<lparr>pr_config := c\<rparr>) = (Ret (), q)"
    using c
    by (auto simp: demo_boot_def config_init_cases config_items_def db_item_def sv_item_def setter_defs
        full_tree_def new_app_config_def server_ctor_def on_part_def config_get_def run_defs live_mysql_def small
        sql_pool_init_def pool_init_def new_process_def new_sql_pool_def sf_init_def sf_initial_def time_gen_def)
  show ?thesis
    by (rule vanished_client_ends_server [OF _ _ _ q]) (use c in \<open>simp_all add: demo_boot_def new_process_def\<close>)
qed

end
