(* ===== verification/ServerRun.thy ===== *)
theory ServerRun
  imports FreshIds Server
begin

text \<open>
  The server at work: jobs, that is requests, messages, arriving and departing sessions, one after
  the other on the state a started server has. What other threads do to the database
  during a job is part of its answers; the order of the jobs is the order in which they end.
\<close>

section \<open>Jobs\<close>

datatype job =
    Request http_request
  | Message string user_claims
  | Arrive nat "string option"  \<comment> \<open>a new session object and its \<open>Authorization\<close> field\<close>
  | Depart ws_session

definition run_job :: "'w env \<Rightarrow> job \<Rightarrow> ('w sys, unit) prog" where
  "run_job E j = (case j of
       Request req \<Rightarrow> andthen (http_task E req) (\<lambda>es. ret ())
     | Message msg claims \<Rightarrow> handle_message E msg claims
     | Arrive h authorization \<Rightarrow> andthen (do_accept E h authorization new_ws_session) (\<lambda>_. ret ())
     | Depart ws \<Rightarrow> ws_dtor ws)"

fun run_jobs :: "'w env \<Rightarrow> job list \<Rightarrow> ('w sys, unit) prog" where
  "run_jobs E [] = ret ()"
| "run_jobs E (j # js) = andthen (run_job E j) (\<lambda>_. run_jobs E js)"

section \<open>Lemmas\<close>

lemma balanced_run_job: "healthy (env_mysql E) \<Longrightarrow> balanced (run_job E j)"
proof (cases j)
  case (Arrive h authorization)
  then show ?thesis unfolding run_job_def do_accept_def auth_user_def
    by (auto intro!: balanced_intros split: option.split)
next
  case (Depart ws)
  then show ?thesis unfolding run_job_def ws_dtor_def by (auto intro!: balanced_intros split: option.split)
qed (auto simp: run_job_def http_task_def intro!: balanced_intros balanced_handle_request balanced_handle_message)

lemma balanced_run_jobs: "healthy (env_mysql E) \<Longrightarrow> balanced (run_jobs E js)"
  by (induction js) (auto intro!: balanced_intros balanced_run_job)

lemma fresh_seq:
  assumes "\<And>k. fresh E k None m" "\<And>k x. fresh E k None (f x)"
  shows "fresh E k None (andthen m f)"
proof (rule freshI)
  fix s r t assume pre: "fresh_pre E k None s" and run: "andthen m f s = (r, t)" "ends r"
  from run show "fresh_post E k s t"
  proof (cases rule: andthen_ends)
    case (1 x u)
    from freshD [OF assms(1) 1(1) pre] obtain tr where u: "db_log u = db_log s @ tr" "sorted_wrt (<) (stored_ids tr)"
      "\<forall>i \<in> set (stored_ids tr). k < i \<and> i \<le> sf_key (sys_sf u)" "sf_inv (env_clock E) (sys_sf u)"
      "sf_key (sys_sf s) \<le> sf_key (sys_sf u)" by (auto simp: fresh_post_def)
    then have "fresh_pre E (sf_key (sys_sf u)) None u" by (simp add: fresh_pre_def)
    from freshD [OF assms(2) 1(2) this run(2)] obtain tr' where t: "db_log t = db_log u @ tr'"
      "sorted_wrt (<) (stored_ids tr')" "\<forall>i \<in> set (stored_ids tr'). sf_key (sys_sf u) < i \<and> i \<le> sf_key (sys_sf t)"
      "sf_inv (env_clock E) (sys_sf t)" "sf_key (sys_sf u) \<le> sf_key (sys_sf t)" by (auto simp: fresh_post_def)
    have "sorted_wrt (<) (stored_ids (tr @ tr'))" using u t by (fastforce simp: sorted_wrt_append)
    moreover have "\<forall>i \<in> set (stored_ids (tr @ tr')). k < i \<and> i \<le> sf_key (sys_sf t)"
      using u t pre by (fastforce simp: fresh_pre_def)
    ultimately show ?thesis using u t unfolding fresh_post_def by (intro conjI exI [of _ "tr @ tr'"]) simp_all
  next
    case (2 e)
    from freshD [OF assms(1) 2(1) pre] show ?thesis by simp
  qed
qed

lemma fresh_run_job: "fresh E k None (run_job E j)"
proof (cases j)
  case (Arrive h authorization)
  have "fresh E k None (do_accept E h authorization new_ws_session)" for k
    unfolding do_accept_def auth_user_def by (intro fresh_steps)
  with Arrive show ?thesis by (auto simp: run_job_def intro!: fresh_seq fresh_plain)
next
  case (Depart ws)
  then show ?thesis unfolding run_job_def ws_dtor_def by (auto intro!: fresh_rules still_fresh split: option.split)
next
  case (Request req)
  then show ?thesis unfolding run_job_def http_task_def
    by (auto intro!: fresh_seq fresh_handle_request fresh_rules)
qed (simp add: run_job_def fresh_handle_message)

lemma fresh_run_jobs: "fresh E k None (run_jobs E js)"
proof (induction js arbitrary: k)
  case (Cons j js)
  then show ?case by (simp add: fresh_seq fresh_run_job)
qed (simp add: fresh_plain)

section \<open>Properties\<close>



text \<open>A private message and a request, on a server that has started.\<close>

definition private_env :: "unit env" where
  "private_env = (demo_env (live_mysql (\<lambda>q. [member_row 7]) (\<lambda>q. 1)))\<lparr>env_clock := (\<lambda>n. 2), env_parse := (\<lambda>b. Inr (JObj
     [(''type'', JStr ''private_message''),
      (''data'', JObj [(''room_id'', JStr ''5''), (''other_user_id'', JStr ''5''), (''content'', JStr ''hi'')])]))\<rparr>"

lemma demo_jobs_run:
  "\<exists>t. run_jobs private_env [Message ''m'' \<lparr>uc_id = 7, uc_username = ''bob''\<rparr>, Request demo_request] demo_started = (Ret (), t) \<and>
     db_log t \<noteq> []"
proof -
  have "to_string 5 = ''5''" by code_simp
  then have five: "stoull ''5'' = Ret 5" using stoull_to_string [of 5] by simp
  have small: "\<not> (2048 :: u64) \<le> 1" by (simp add: word_le_nat_alt)
  show ?thesis
    by (simp add: run_job_def handle_message_def handle_parsed_def handle_private_message_def private_env_def
        to_client_private_msg_def json_simps is_object_def is_string_def c_str_def run_defs demo_defs demo_started_def five
        write_to_run online_def next_id_def time_gen_def small http_task_def handle_request_def make_req_context_def demo_request_def)
qed



end
