(* ===== verification/HandlerReplies.thy ===== *)
theory HandlerReplies
  imports RequestHandler
begin

text \<open>
  The shape of the replies: whatever the database, the files and the tokens are, a reply echoes
  the version and the keep-alive of its request, carries one of six status codes, and its JSON
  body, if it has one, is the envelope of an \<open>ApiResponse\<close>. The judgement \<open>replies\<close>
  follows the program combinators and looks at returned values only.
\<close>

section \<open>The judgement\<close>

definition replies :: "('a \<Rightarrow> bool) \<Rightarrow> ('s, 'a) prog \<Rightarrow> bool" where
  "replies P m \<longleftrightarrow> (\<forall>s x t. m s = (Ret x, t) \<longrightarrow> P x)"

named_theorems replies_intros "what a program can return"

lemma replies_plain [replies_intros]:
  "P x \<Longrightarrow> replies P (ret x)" "replies P (raise e)" "replies P undef"
  by (simp_all add: replies_def ret_def raise_def undef_def)

lemma replies_andthen [replies_intros]: "(\<And>x. replies P (f x)) \<Longrightarrow> replies P (andthen m f)"
  unfolding replies_def andthen_eq_Ret by blast

lemma replies_try_catch [replies_intros]:
  "replies P m \<Longrightarrow> (\<And>e. replies P (h e)) \<Longrightarrow> replies P (try_catch m h)"
  by (fastforce simp: replies_def try_catch_def split: prod.splits outcome.splits)

lemma replies_with_dtor: "replies P m \<Longrightarrow> replies P (with_dtor m d)"
  by (fastforce simp: replies_def with_dtor_def split: prod.splits outcome.splits)

lemma replies_with_conn [replies_intros]: "replies P body \<Longrightarrow> replies P (with_conn M D body)"
  unfolding with_conn_def by (intro replies_andthen replies_with_dtor)

lemma replies_cases [replies_intros]:
  "(b \<Longrightarrow> replies P m) \<Longrightarrow> (\<not> b \<Longrightarrow> replies P n) \<Longrightarrow> replies P (if b then m else n)"
  "replies P m \<Longrightarrow> (\<And>x xs. replies P (f x xs)) \<Longrightarrow> replies P (case l of [] \<Rightarrow> m | x # xs \<Rightarrow> f x xs)"
  "(\<And>e. replies P (g e)) \<Longrightarrow> (\<And>x. replies P (h x)) \<Longrightarrow> replies P (case v of Inl e \<Rightarrow> g e | Inr x \<Rightarrow> h x)"
  "(\<And>n. replies P (h' n)) \<Longrightarrow> replies P m \<Longrightarrow> (\<And>e'. replies P (g' e')) \<Longrightarrow>
     replies P (case o' of Opened n \<Rightarrow> h' n | NoSuchFile \<Rightarrow> m | OpenFailed e' \<Rightarrow> g' e')"
  by (auto split: list.split sum.split open_result.split)

section \<open>Well-formed replies\<close>

definition envelope :: "json \<Rightarrow> bool" where
  "envelope v \<longleftrightarrow> (\<exists>code msg data. v = JObj [(''code'', JInt (status_int code)), (''message'', JStr msg), (''data'', data)])"

definition well_formed :: "'w env \<Rightarrow> http_request \<Rightarrow> response \<Rightarrow> bool" where
  "well_formed E req resp \<longleftrightarrow>
     rs_version resp = rq_version req \<and> rs_keep_alive resp = rq_keep_alive req \<and>
     (case rs_body resp of
        Text_body txt \<Rightarrow> rs_status resp \<in> {200, 400, 401, 403, 404, 500} \<and>
          rs_content_type resp = ''application/json'' \<and> rs_content_length resp = Some (to_string (of_nat (length txt))) \<and>
          (\<exists>v. txt = env_serialize E v \<and> envelope v)
      | File_body path n \<Rightarrow> rs_status resp = 200 \<and> rs_content_length resp = Some (to_string (of_nat n)))"

lemma envelope_simps [simp]: "envelope (error_body code msg)" "envelope (api_response_json f r)"
  by (auto simp: envelope_def error_body_def api_response_json_def)

lemma well_formed_replies [simp]:
  "well_formed E req (bad_request E req msg)" "well_formed E req (error_resp E req code msg)"
  "envelope v \<Longrightarrow> well_formed E req (ok_response E req v)"
  "envelope v \<Longrightarrow> n \<in> {200, 400, 401, 403, 404, 500} \<Longrightarrow>
     well_formed E req (create_json_response E n (rq_version req) (rq_keep_alive req) v)"
  by (auto simp: well_formed_def bad_request_def error_resp_def ok_response_def create_json_response_def
      split: status_code.split)

lemma well_formed_file [simp]:
  "well_formed E req \<lparr>rs_status = 200, rs_version = rq_version req, rs_server = srv, rs_content_type = ty,
     rs_content_length = Some (to_string (of_nat n)), rs_keep_alive = rq_keep_alive req, rs_body = File_body path n\<rparr>"
  by (simp add: well_formed_def)

lemma well_formed_ctx [simp]:
  "make_req_context E req = Ret ctx \<Longrightarrow> well_formed E req (error_resp_ctx E ctx code msg)"
  by (auto simp: make_req_context_def obind_eq_Ret well_formed_def error_resp_ctx_def create_json_response_def
      split: status_code.split)

lemma room_replies:
  "replies (well_formed E req) (create_g_room E req)" "replies (well_formed E req) (create_p_room E req)"
  "replies (well_formed E req) (delete_room E req r)" "replies (well_formed E req) (invite_member E req r)"
proof -
  show "replies (well_formed E req) (create_g_room E req)"
    unfolding create_g_room_def create_g_room_body_def by (intro replies_intros) simp_all
  show "replies (well_formed E req) (create_p_room E req)"
    unfolding create_p_room_def create_p_room_body_def by (intro replies_intros) simp_all
  show "replies (well_formed E req) (delete_room E req r)"
    unfolding delete_room_def delete_room_body_def by (intro replies_intros) simp_all
  show "replies (well_formed E req) (invite_member E req r)"
    unfolding invite_member_def by (intro replies_intros) simp_all
qed

lemma user_replies:
  "replies (well_formed E req) (handle_login E req)" "replies (well_formed E req) (handle_register E req)"
proof -
  show "replies (well_formed E req) (handle_login E req)"
    unfolding handle_login_def login_body_def by (intro replies_intros) simp_all
  show "replies (well_formed E req) (handle_register E req)"
    unfolding handle_register_def register_body_def by (intro replies_intros) simp_all
qed

lemma chat_room_replies: "replies (well_formed E req) (handle_chat_room E req)"
  unfolding handle_chat_room_def Let_def by (intro replies_intros room_replies) simp_all

lemma context_replies:
  assumes "make_req_context E req = Ret ctx"
  shows "replies (well_formed E req) (query_rooms E ctx)" "replies (well_formed E req) (handle_assets E ctx)"
proof -
  show "replies (well_formed E req) (query_rooms E ctx)"
    unfolding query_rooms_def by (intro replies_intros) (simp_all add: assms)
  have "cx_version ctx = rq_version req" "cx_keep_alive ctx = rq_keep_alive req"
    using assms by (auto simp: make_req_context_def obind_eq_Ret)
  then show "replies (well_formed E req) (handle_assets E ctx)"
    unfolding handle_assets_def Let_def
    by (intro replies_intros) (simp_all add: assms)
qed

lemma replies_lift_then:
  "(\<And>x. v = Ret x \<Longrightarrow> replies P (f x)) \<Longrightarrow> replies P (andthen (lift v) f)"
  by (auto simp: replies_def andthen_eq_Ret lift_def)

text \<open>
  C27: replies are well formed: whatever it is asked and whatever the database does, a reply of
  \<open>handle_request\<close> has the version and keep-alive of its request, and is either a JSON
  envelope (an integer code, a text, data) with status 200, 400, 401, 403, 404 or 500, or a file
  with status 200 and its size as content length.
\<close>

theorem handle_request_reply_well_formed:
  assumes "handle_request E req s = (Ret resp, t)"
  shows "well_formed E req resp"
proof -
  have "replies (well_formed E req) (handle_request E req)"
    unfolding handle_request_def
    by (intro replies_lift_then replies_cases(1) room_replies user_replies chat_room_replies context_replies
        replies_plain) simp_all
  with assms show ?thesis by (auto simp: replies_def)
qed

lemma handle_request_reply_well_formed_witness:
  "\<exists>resp t. handle_request (demo_env dead_mysql) \<lparr>rq_method = Get, rq_target = ''/nothing'', rq_version = 11,
     rq_keep_alive = True, rq_authorization = None, rq_body = []\<rparr> demo_sys = (Ret resp, t) \<and>
     rs_version resp = 11 \<and> rs_keep_alive resp"
proof -
  let ?req = "\<lparr>rq_method = Get, rq_target = ''/nothing'', rq_version = 11,
     rq_keep_alive = True, rq_authorization = None, rq_body = []\<rparr>"
  obtain resp t where run: "handle_request (demo_env dead_mysql) ?req demo_sys = (Ret resp, t)"
    by (simp add: handle_request_def make_req_context_def andthen_def lift_def ret_def)
  from handle_request_reply_well_formed [OF run] run show ?thesis by (auto simp: well_formed_def)
qed

end
