(* ===== verification/LegacySession.thy ===== *)
theory LegacySession
  imports WsSession
begin

text \<open>
  The older session of \<open>src/src/websocket_session.cpp\<close>, which broadcasts through a shared
  state instead of handing messages to the pool. What it asks of the shared state and of the
  stream are its effects. It has the same write queue, so it is another instance of
  \<open>write_queue\<close>; unlike the current session it consumes its buffer.
\<close>

section \<open>State and operations\<close>

record legacy_session =
  ls_queue :: "string list"
  ls_buffer :: string

datatype legacy_effect =
    L_join | L_leave | L_broadcast string | L_read | L_write string | L_post_on_send string | L_report string

definition legacy_dtor :: "legacy_effect list" where
  "legacy_dtor = [L_leave]"

definition legacy_fail :: "error_code \<Rightarrow> string \<Rightarrow> legacy_effect list" where
  "legacy_fail ec what = (if ec = Aborted \<or> ec = Closed then [] else [L_report what])"

definition legacy_on_accept :: "error_code \<Rightarrow> legacy_effect list" where
  "legacy_on_accept ec = (if ec \<noteq> Ok then legacy_fail ec ''accept'' else [L_join, L_read])"

definition legacy_arrive :: "string \<Rightarrow> legacy_session \<Rightarrow> legacy_session" where
  "legacy_arrive msg s = s\<lparr>ls_buffer := ls_buffer s @ msg\<rparr>"

definition legacy_on_read :: "error_code \<Rightarrow> legacy_session \<Rightarrow> legacy_session \<times> legacy_effect list" where
  "legacy_on_read ec s =
     (if ec \<noteq> Ok then (s, legacy_fail ec ''read'')
      else (s\<lparr>ls_buffer := []\<rparr>, [L_broadcast (ls_buffer s), L_read]))"

definition legacy_send :: "string \<Rightarrow> legacy_effect list" where
  "legacy_send ss = [L_post_on_send ss]"

definition legacy_on_send :: "string \<Rightarrow> legacy_session \<Rightarrow> legacy_session \<times> legacy_effect list" where
  "legacy_on_send ss s =
     (let s' = s\<lparr>ls_queue := ls_queue s @ [ss]\<rparr>
      in if length (ls_queue s') > 1 then (s', []) else (s', [L_write (hd (ls_queue s'))]))"

definition legacy_on_write :: "error_code \<Rightarrow> legacy_session \<Rightarrow> legacy_session \<times> legacy_effect list" where
  "legacy_on_write ec s =
     (if ec \<noteq> Ok then (s, legacy_fail ec ''write'')
      else let s' = s\<lparr>ls_queue := tl (ls_queue s)\<rparr>
           in (s', if ls_queue s' \<noteq> [] then [L_write (hd (ls_queue s'))] else []))"

section \<open>The write queue and the reads\<close>

definition legacy_writes :: "legacy_effect list \<Rightarrow> string list" where
  "legacy_writes es = List.map_filter (\<lambda>e. case e of L_write m \<Rightarrow> Some m | _ \<Rightarrow> None) es"

lemma legacy_writes_simps [simp]: "legacy_writes [] = []" "legacy_writes [L_write m] = [m]"
  by (simp_all add: legacy_writes_def map_filter_simps)

definition legacy_enqueue :: "string \<Rightarrow> legacy_session \<Rightarrow> legacy_session \<times> string list" where
  "legacy_enqueue m s = (fst (legacy_on_send m s), legacy_writes (snd (legacy_on_send m s)))"

definition legacy_written :: "legacy_session \<Rightarrow> legacy_session \<times> string list" where
  "legacy_written s = (fst (legacy_on_write Ok s), legacy_writes (snd (legacy_on_write Ok s)))"

interpretation lsq: write_queue ls_queue legacy_enqueue legacy_written
  by unfold_locales
    (auto simp: legacy_enqueue_def legacy_written_def legacy_on_send_def legacy_on_write_def Let_def take_Suc)

text \<open>The two sessions queue and write in step.\<close>

definition same_queue :: "ws_session \<Rightarrow> legacy_session \<Rightarrow> bool" where
  "same_queue ws s \<longleftrightarrow> wss_queue ws = ls_queue s"

lemma same_queue_step:
  assumes "same_queue ws s"
  shows "same_queue (fst (ws_on_send m ws)) (fst (legacy_on_send m s))"
    "writes (snd (ws_on_send m ws)) = legacy_writes (snd (legacy_on_send m s))"
    "same_queue (fst (ws_on_write Ok ws)) (fst (legacy_on_write Ok s))"
    "writes (snd (ws_on_write Ok ws)) = legacy_writes (snd (legacy_on_write Ok s))"
  using assms by (auto simp: same_queue_def ws_on_send_def legacy_on_send_def ws_on_write_def
      legacy_on_write_def Let_def)

section \<open>Properties\<close>

text \<open>The broadcasts that successive messages cause.\<close>

fun legacy_read_all :: "string list \<Rightarrow> legacy_session \<Rightarrow> legacy_effect list" where
  "legacy_read_all [] s = []"
| "legacy_read_all (m # ms) s =
     (let (s', es) = legacy_on_read Ok (legacy_arrive m s) in es @ legacy_read_all ms s')"

text \<open>
  A session that starts with an empty buffer broadcasts every message exactly as it was
  received, one broadcast and one new read per message.
\<close>

theorem legacy_broadcasts_each_message:
  assumes "ls_buffer s = []"
  shows "legacy_read_all msgs s = concat (map (\<lambda>m. [L_broadcast m, L_read]) msgs)"
  using assms
  by (induction msgs arbitrary: s) (simp_all add: legacy_on_read_def legacy_arrive_def)

lemma legacy_broadcasts_each_message_witness:
  "legacy_read_all [''a'', ''b''] \<lparr>ls_queue = [], ls_buffer = []\<rparr> = [L_broadcast ''a'', L_read, L_broadcast ''b'', L_read]"
  using legacy_broadcasts_each_message [of "\<lparr>ls_queue = [], ls_buffer = []\<rparr>" "[''a'', ''b'']"] by simp

text \<open>
  The two generations of sessions start the same writes for the same sequence of messages
  and completions.
\<close>

theorem session_queues_agree:
  assumes "same_queue ws s"
  shows "snd (fold (wq_step ws_send ws_written) evs (ws, io)) = snd (fold (wq_step legacy_enqueue legacy_written) evs (s, io))"
  using assms
proof (induction evs arbitrary: ws s io)
  case (Cons ev evs)
  let ?a = "wq_step ws_send ws_written ev (ws, io)" and ?b = "wq_step legacy_enqueue legacy_written ev (s, io)"
  obtain sent started ended where io: "io = (sent, started, ended)" by (cases io)
  have "same_queue (fst ?a) (fst ?b) \<and> snd ?a = snd ?b"
    using same_queue_step [OF Cons.prems] Cons.prems
    by (simp add: io wq_step_def ws_send_def ws_written_def legacy_enqueue_def legacy_written_def split: write_op.split)
  with Cons.IH [of "fst ?a" "fst ?b" "snd ?a"] show ?case by (cases ?a, cases ?b) simp
qed simp

lemma session_queues_agree_witness:
  "snd (fold (wq_step ws_send ws_written) [Send ''a'', Send ''b''] (new_ws_session, [], [], 0)) =
   snd (fold (wq_step legacy_enqueue legacy_written) [Send ''a'', Send ''b''] (\<lparr>ls_queue = [], ls_buffer = []\<rparr>, [], [], 0))"
  by (rule session_queues_agree) (simp add: same_queue_def new_ws_session_def)

end
