(* ===== verification/Transactions.thy ===== *)
theory Transactions
  imports HandlerSafety
begin

text \<open>
  Whether the statements of a transaction run on the connection that has been switched to manual
  commit. They do while connections stay alive; \<open>SqlConnRAII::getSql\<close>, called by every statement,
  changes the connection when the current one is dead, and then they do not.
\<close>

section \<open>Events of one connection\<close>

definition writes_on :: "conn \<Rightarrow> event \<Rightarrow> bool" where
  "writes_on c e = (case e of
       Update c' _ _ _ \<Rightarrow> c' = c
     | Commit c' _ \<Rightarrow> c' = c
     | Rollback c' _ \<Rightarrow> c' = c
     | Autocommit c' b _ \<Rightarrow> b \<or> c' = c
     | _ \<Rightarrow> True)"

text \<open>The connection is in manual commit mode before it changes data, and no other changes data.\<close>

definition in_transaction :: "conn \<Rightarrow> event list \<Rightarrow> bool" where
  "in_transaction c tr \<longleftrightarrow>
     precedes (\<lambda>e. e = Autocommit c False (Inr ())) is_update tr \<and> list_all (writes_on c) tr"

text \<open>What a run adds to the history.\<close>

definition run_events :: "('w sys, 'a) prog \<Rightarrow> 'w sys \<Rightarrow> event list" where
  "run_events m s = drop (length (db_log s)) (db_log (snd (m s)))"

lemma run_eventsI: "db_log (snd (m s)) = db_log s @ tr \<Longrightarrow> run_events m s = tr"
  by (simp add: run_events_def)

lemma writes_on_simps [simp]:
  "writes_on c (Update c' sql ps n) = (c' = c)" "writes_on c (Commit c' q) = (c' = c)"
  "writes_on c (Rollback c' q) = (c' = c)" "writes_on c (Autocommit c' b q) = (b \<or> c' = c)"
  "writes_on c (Query c' sql bs rs)" "writes_on c (Post h m)"
  by (simp_all add: writes_on_def)

lemma closing_writes: "closing evs \<Longrightarrow> list_all (writes_on c) evs"
  by (auto simp: closing_def)

section \<open>The judgement\<close>

text \<open>
  \<open>steady c m\<close>: inside a scope whose connection is \<open>c\<close>, the step changes data on \<open>c\<close> only; that it
  leaves the scope's connection alone is part of \<open>balanced\<close>.
\<close>

definition steady :: "conn \<Rightarrow> ('w sys, 'a) prog \<Rightarrow> bool" where
  "steady c m \<longleftrightarrow> balanced m \<and> (\<forall>s cs r t. pool_ok s \<longrightarrow> db_conns s = c # cs \<longrightarrow> m s = (r, t) \<longrightarrow>
     (\<exists>tr. db_log t = db_log s @ tr \<and> list_all (writes_on c) tr))"

named_theorems steady_rules "a step that stays on its connection, from its parts"

lemma steadyI:
  "balanced m \<Longrightarrow> (\<And>s cs r t. pool_ok s \<Longrightarrow> db_conns s = c # cs \<Longrightarrow> m s = (r, t) \<Longrightarrow>
     \<exists>tr. db_log t = db_log s @ tr \<and> list_all (writes_on c) tr) \<Longrightarrow> steady c m"
  by (simp add: steady_def)

lemma steadyD:
  assumes "steady c m" "pool_ok s" "db_conns s = c # cs" "m s = (r, t)"
  shows "\<exists>tr. db_log t = db_log s @ tr \<and> list_all (writes_on c) tr"
    and "ends r \<Longrightarrow> pool_ok t \<and> db_conns t = c # cs"
proof -
  show "\<exists>tr. db_log t = db_log s @ tr \<and> list_all (writes_on c) tr" using assms by (simp add: steady_def)
  assume "ends r"
  then have "same_pool s t" using assms by (simp add: steady_def balanced_def)
  then show "pool_ok t \<and> db_conns t = c # cs" using assms(2,3) same_pool_ok unfolding same_pool_def by metis
qed

lemma steady_emits: "balanced m \<Longrightarrow> emits m (\<lambda>r tr. list_all (writes_on c) tr) \<Longrightarrow> steady c m"
  by (rule steadyI) (auto dest: emitsD)

lemma steady_plain [steady_rules]:
  "steady c (ret x)" "steady c (raise e)" "steady c undef" "steady c (lift v)"
  by (rule steady_emits; (intro balanced_intros | simp add: emits_def wp_simps))+

lemma steady_outside [steady_rules]:
  "steady c (sf_next E)" "steady c (write_to u msg)"
proof -
  show "steady c (sf_next E)"
    by (rule steady_emits) (auto intro!: balanced_intros wp_intros simp: emits_def)
  show "steady c (write_to u msg)"
    by (rule steady_emits [OF _ emits_mono [OF emits_write_to]]) (auto intro: balanced_intros)
qed

lemma room_event_writes: "room_event msg e \<Longrightarrow> writes_on c e"
  by (cases e) (simp_all add: room_event_def)

lemma steady_write_to_room [steady_rules]:
  assumes "healthy (env_mysql E)"
  shows "steady c (write_to_room E room msg)"
proof (rule steady_emits [OF balanced_write_to_room [OF assms] emits_mono [OF emits_write_to_room]])
  fix r :: "unit outcome" and tr assume "list_all (room_event msg) tr"
  then show "list_all (writes_on c) tr" using room_event_writes by (auto simp: list_all_iff)
qed

lemma steady_query [steady_rules]: "healthy (env_mysql E) \<Longrightarrow> steady c (query E sql ps)"
  by (rule steady_emits [OF balanced_execute(1) emits_mono [OF emits_query]]) auto

text \<open>With live connections a statement runs on the connection of its scope.\<close>

lemma steady_update [steady_rules]:
  assumes "healthy (env_mysql E)"
  shows "steady c (update E sql ps)"
proof (rule steadyI [OF balanced_execute(2) [OF assms]])
  fix s :: "'a sys" and cs r t assume "db_conns s = c # cs" "update E sql ps s = (r, t)"
  then have "\<exists>q. db_log t = db_log s @ [Update c sql (bind_all_param 1 ps) q]"
    by (auto simp: execute_update_def raii_get_sql_def top_conn_def andthen_def gets_def ret_def
        healthy_valid [OF assms] db_call_def Let_def split: prod.splits)
  then show "\<exists>tr. db_log t = db_log s @ tr \<and> list_all (writes_on c) tr" by auto
qed

lemma steady_transaction [steady_rules]:
  "steady c (begin_transaction M)" "steady c (commit M)" "steady c (rollback M)"
  unfolding begin_transaction_def commit_def rollback_def
  by (rule steadyI; (intro balanced_intros | auto simp: top_conn_def andthen_def gets_def db_call_def split: prod.splits))+

lemma steady_andthen [steady_rules]:
  assumes "steady c m" "\<And>x. steady c (f x)"
  shows "steady c (andthen m f)"
proof (rule steadyI)
  show "balanced (andthen m f)" using assms by (auto simp: steady_def intro: balanced_intros)
  fix s cs r t assume ok: "pool_ok s" "db_conns s = c # cs" and run: "andthen m f s = (r, t)"
  obtain q u where m: "m s = (q, u)" by (cases "m s")
  note u = steadyD [OF assms(1) ok m]
  show "\<exists>tr. db_log t = db_log s @ tr \<and> list_all (writes_on c) tr"
  proof (cases q)
    case (Ret x)
    with m run have "f x u = (r, t)" by (simp add: andthen_def)
    from steadyD(1) [OF assms(2) _ _ this] u Ret show ?thesis by fastforce
  qed (use m run u(1) in \<open>auto simp: andthen_def\<close>)
qed

lemma steady_try [steady_rules]:
  assumes "steady c m" "\<And>e. steady c (h e)"
  shows "steady c (try_catch m h)"
proof (rule steadyI)
  show "balanced (try_catch m h)" using assms by (auto simp: steady_def intro: balanced_intros)
  fix s cs r t assume ok: "pool_ok s" "db_conns s = c # cs" and run: "try_catch m h s = (r, t)"
  obtain q u where m: "m s = (q, u)" by (cases "m s")
  note u = steadyD [OF assms(1) ok m]
  show "\<exists>tr. db_log t = db_log s @ tr \<and> list_all (writes_on c) tr"
  proof (cases q)
    case (Throw e)
    with m run have "h e u = (r, t)" by (simp add: try_catch_def)
    from steadyD(1) [OF assms(2) _ _ this] u Throw show ?thesis by fastforce
  qed (use m run u(1) in \<open>auto simp: try_catch_def\<close>)
qed

lemma steady_cases [steady_rules]:
  "steady c m \<Longrightarrow> steady c n \<Longrightarrow> steady c (if b then m else n)"
  "steady c m \<Longrightarrow> (\<And>x xs. steady c (f x xs)) \<Longrightarrow> steady c (case v of [] \<Rightarrow> m | x # xs \<Rightarrow> f x xs)"
  by (simp_all split: list.split)

text \<open>A scope: its body is steady for whatever connection the constructor got.\<close>

lemma steady_scope:
  assumes "healthy (env_mysql E)" "\<And>c. steady c body" "pool_ok s" "conn_scope E body s = (r, t)"
  shows "\<exists>c tr. db_log t = db_log s @ tr \<and> list_all (writes_on c) tr"
  using assms(1,3)
proof (cases rule: ctor_outcome [where D = "env_db E"])
  case Hang
  obtain q u where ctor: "raii_ctor (env_mysql E) (env_db E) s = (q, u)" by (cases "raii_ctor (env_mysql E) (env_db E) s")
  with Hang assms(4) have "t = u" by (simp add: with_conn_def andthen_def)
  with quietD [OF quiet_raii(2) ctor] show ?thesis by auto
next
  case (Ret n c cs)
  let ?u = "s\<lparr>db_pool := (db_pool s)\<lparr>sp_smph := Some n, sp_queue := cs\<rparr>,
    db_world := snd (my_valid (env_mysql E) c (db_world s)), db_conns := c # db_conns s\<rparr>"
  obtain q v where body: "body ?u = (q, v)" by (cases "body ?u")
  have "pool_ok ?u" "db_conns ?u = c # db_conns s" using assms(3) Ret by (simp_all add: pool_ok_def)
  from steadyD(1) [OF assms(2) this body] obtain tr
    where tr: "db_log v = db_log s @ tr" "list_all (writes_on c) tr" by auto
  obtain q' w where dtor: "raii_dtor (env_mysql E) v = (q', w)" by (cases "raii_dtor (env_mysql E) v")
  from closesD [OF closes_dtor dtor] obtain evs where evs: "closing evs" "db_log w = db_log v @ evs" by auto
  have "with_dtor body (raii_dtor (env_mysql E)) ?u = (r, t)"
    using assms(4) by (simp add: with_conn_def andthen_def healthy_ctor [OF assms(1) Ret])
  then have "t = v \<or> t = w"
    using body dtor by (auto simp: with_dtor_def split: outcome.splits)
  with tr evs closing_writes show ?thesis by fastforce
qed

section \<open>The handlers\<close>

definition begun :: "event \<Rightarrow> bool" where
  "begun e = (case e of Autocommit _ b (Inr _) \<Rightarrow> \<not> b | _ \<Rightarrow> False)"

lemma begun_simps [simp]:
  "begun (Autocommit c b (Inr u)) = (\<not> b)" "\<not> begun (Autocommit c b (Inl e))" "\<not> begun (Query c sql bs rs)"
  "\<not> begun (Commit c q)" "\<not> begun (Rollback c q)" "\<not> begun (Update c sql bs n)" "\<not> begun (Post h m)"
  by (simp_all add: begun_def)

lemma begun_in_transaction:
  assumes "precedes begun is_update tr" "list_all (writes_on c) tr"
  shows "in_transaction c tr"
proof -
  have "begun e \<Longrightarrow> writes_on c e \<Longrightarrow> e = Autocommit c False (Inr ())" for e
    by (auto simp: begun_def writes_on_def split: event.splits sum.splits)
  with assms have "precedes (\<lambda>e. e = Autocommit c False (Inr ())) is_update tr"
    by (induction tr) auto
  with assms(2) show ?thesis by (simp add: in_transaction_def)
qed

lemma begun_frames:
  assumes "emits body (\<lambda>r tr. precedes begun is_update tr)"
  shows "emits (try_catch body (\<lambda>e. andthen (rollback M) (\<lambda>_. ret x))) (\<lambda>r tr. precedes begun is_update tr)"
    and "emits (conn_scope E body) (\<lambda>r tr. precedes begun is_update tr)"
proof -
  show "emits (try_catch body (\<lambda>e. andthen (rollback M) (\<lambda>_. ret x))) (\<lambda>r tr. precedes begun is_update tr)"
    by (rule emits_try [OF assms]) (auto intro!: emits_rollback_then emits_ret simp: precedes_append_harmless)
  show "emits (conn_scope E body) (\<lambda>r tr. precedes begun is_update tr)"
    by (rule emits_scope [OF assms]) (auto simp: precedes_append_harmless)
qed

lemma rooms_begun:
  "emits (create_p_room E req) (\<lambda>r tr. precedes begun is_update tr)"
  "emits (create_g_room E req) (\<lambda>r tr. precedes begun is_update tr)"
  "emits (delete_room E req room) (\<lambda>r tr. precedes begun is_update tr)"
proof -
  show "emits (create_p_room E req) (\<lambda>r tr. precedes begun is_update tr)"
    unfolding create_p_room_def create_p_room_body_def
    by (intro emits_if begun_frames emits_rules) simp_all
  show "emits (create_g_room E req) (\<lambda>r tr. precedes begun is_update tr)"
    unfolding create_g_room_def create_g_room_body_def
    by (intro emits_if begun_frames emits_rules) simp_all
  show "emits (delete_room E req room) (\<lambda>r tr. precedes begun is_update tr)"
    unfolding delete_room_def
  proof (rule begun_frames(2), rule emits_begin_then)
    fix c x
    have "emits (try_catch (delete_room_body E req room) (\<lambda>e. andthen (rollback (env_mysql E))
        (\<lambda>_. ret (error_resp E req BadRequest '' Server error'')))) (\<lambda>r tr. True)"
      by (rule emits_mono [OF emits_rollback_reply [OF delete_room_body_emits]])
        (auto simp: error_resp_def create_json_response_def intro!: delete_order_more)
    then show "emits (try_catch (delete_room_body E req room) (\<lambda>e. andthen (rollback (env_mysql E))
        (\<lambda>_. ret (error_resp E req BadRequest '' Server error''))))
      (\<lambda>r tr. precedes begun is_update (Autocommit c False (Inr x) # tr))"
      by simp
  qed simp
qed

lemma message_begun: "emits (handle_message E msg c) (\<lambda>r tr. precedes begun is_update tr)"
  unfolding handle_message_def
proof (rule begun_frames(2), rule emits_begin_then)
  fix conn x
  have "emits (andthen (lift (of_sum (env_parse E msg))) (handle_parsed E c)) (\<lambda>r tr. message_order E (uc_id c) tr)"
    by (intro emits_lift_then handle_parsed_emits) simp
  then show "emits (try_catch (andthen (lift (of_sum (env_parse E msg))) (handle_parsed E c)) (\<lambda>e. rollback (env_mysql E)))
      (\<lambda>r tr. precedes begun is_update (Autocommit conn False (Inr x) # tr))"
    by (rule emits_try) (auto intro!: emits_mono [OF emits_transaction(3)])
qed simp

lemma steady_bodies:
  assumes "healthy (env_mysql E)"
  shows "steady c (create_p_room_body E req)" "steady c (create_g_room_body E req)"
    "steady c (delete_room_body E req room)" "steady c (handle_parsed E claims jv)"
proof -
  show "steady c (create_p_room_body E req)"
    unfolding create_p_room_body_def by (intro steady_rules assms)
  show "steady c (create_g_room_body E req)"
    unfolding create_g_room_body_def by (intro steady_rules assms)
  show "steady c (delete_room_body E req room)"
    unfolding delete_room_body_def by (intro steady_rules assms)
  show "steady c (handle_parsed E claims jv)"
    unfolding handle_parsed_def handle_private_message_def handle_group_message_def
    by (intro steady_rules assms)
qed

text \<open>A handler whose scope is steady and which begins before it writes.\<close>

lemma scope_in_transaction:
  assumes "healthy (env_mysql E)" "\<And>c. steady c body" "pool_ok s"
    and "emits (conn_scope E body) (\<lambda>r tr. precedes begun is_update tr)"
  shows "\<exists>c. in_transaction c (run_events (conn_scope E body) s)"
proof -
  obtain r t where run: "conn_scope E body s = (r, t)" by (cases "conn_scope E body s")
  from steady_scope [OF assms(1-3) run] obtain c tr
    where tr: "db_log t = db_log s @ tr" "list_all (writes_on c) tr" by blast
  from emitsD [OF assms(4) run] tr(1) have "precedes begun is_update tr" by auto
  with tr run begun_in_transaction run_eventsI [of "conn_scope E body" s tr] show ?thesis by auto
qed

text \<open>
  C10: transactions are transactions: while connections stay alive, whatever statements answer
  or throw, the handlers that create and delete rooms and that store messages change data on one
  connection only, and only after that connection was switched to manual commit; commits and
  rollbacks are calls on that connection too.
\<close>

theorem transactions_on_one_connection:
  assumes "healthy (env_mysql E)" "pool_ok s"
  shows "(\<exists>c. in_transaction c (run_events (create_p_room E req) s)) \<and>
    (\<exists>c. in_transaction c (run_events (create_g_room E req) s)) \<and>
    (\<exists>c. in_transaction c (run_events (delete_room E req room) s)) \<and>
    (\<exists>c. in_transaction c (run_events (handle_message E msg claims) s))"
proof (intro conjI)
  have refused: "\<exists>c. in_transaction c (run_events (ret x) s)" for x :: response
    by (simp add: run_events_def ret_def in_transaction_def)
  note scope = scope_in_transaction [OF assms(1) _ assms(2)]
  show "\<exists>c. in_transaction c (run_events (create_p_room E req) s)"
    using refused rooms_begun(1) [of E req] unfolding create_p_room_def
    by (auto intro!: scope steady_rules steady_bodies assms(1))
  show "\<exists>c. in_transaction c (run_events (create_g_room E req) s)"
    using refused rooms_begun(2) [of E req] unfolding create_g_room_def
    by (auto intro!: scope steady_rules steady_bodies assms(1))
  show "\<exists>c. in_transaction c (run_events (delete_room E req room) s)"
    using rooms_begun(3) [of E req room] unfolding delete_room_def
    by (auto intro!: scope steady_rules steady_bodies assms(1))
  show "\<exists>c. in_transaction c (run_events (handle_message E msg claims) s)"
    using message_begun [of E msg claims] unfolding handle_message_def
    by (auto intro!: scope steady_rules steady_bodies assms(1))
qed

section \<open>A connection that dies inside a transaction\<close>

text \<open>
  A database whose connection 0 answers the check of the constructor and is dead from then on,
  whose connection 1 is alive, and which inserts the room but not its members: \<open>'w\<close> counts the
  checks.
\<close>

definition flaky_mysql :: "nat mysql" where
  "flaky_mysql = \<lparr>my_driver = (\<lambda>w. True), my_connect = (\<lambda>a w. (Inr 9, w)),
     my_close = (\<lambda>c w. (Inr (), w)), my_valid = (\<lambda>c w. (c \<noteq> 0 \<or> w = 0, Suc w)),
     my_get_autocommit = (\<lambda>c w. (Inr (c \<noteq> 0), w)), my_set_autocommit = (\<lambda>c b w. (Inr (), w)),
     my_commit = (\<lambda>c w. (Inr (), w)), my_rollback = (\<lambda>c w. (Inr (), w)),
     my_query = (\<lambda>c q b w. (Inr [], w)), my_update = (\<lambda>c q b w. (Inr (if q = p_room_insert then 1 else 0), w))\<rparr>"

definition flaky_env :: "nat env" where
  "flaky_env = \<lparr>env_mysql = flaky_mysql,
     env_db = \<lparr>db_pool_max_size = 2, db_server = ''db'', db_user = ''u'', db_passwd = ''p'', db_db = ''chat''\<rparr>,
     env_server = \<lparr>sv_host = ''0'', sv_port = 80, sv_doc_root = ''/srv/'', sv_io_threads = 1,
       sv_worker_threads = 1, sv_jwt_secret = ''s'', sv_log_file = ''l'', sv_queue_limit = 2,
       sv_custom_epoch = 1, sv_service_id = 1\<rparr>,
     env_clock = (\<lambda>n. 2), env_now = (\<lambda>w. (0, w)), env_parse = (\<lambda>b. Inr (JObj [(''other_id'', JStr ''5'')])),
     env_serialize = (\<lambda>v. ''json''),
     env_jwt_decode = (\<lambda>t. Inr [(''sub'', JStr ''5''), (''username'', JStr t)]),
     env_jwt_sign = (\<lambda>ty p s. s), env_pwhash = (\<lambda>p w. (Some p, w)),
     env_pwverify = (\<lambda>h p. h = p), env_open = (\<lambda>p w. (NoSuchFile, w)), env_beast_version = ''Boost.Beast''\<rparr>"

definition flaky_sys :: "nat sys" where
  "flaky_sys = \<lparr>db_world = 0, db_pool = \<lparr>sp_smph = Some 2, sp_max_conn = 2, sp_queue = [0, 1]\<rparr>, db_conns = [], db_log = [],
     sys_sf = \<lparr>sf_service_id = 1, sf_sequence_id = 0, sf_last_timestamp = 1, sf_custom_epoch = 1, sf_ticks = 0\<rparr>,
     sys_sessions = Map.empty, sys_alive = (\<lambda>h. False)\<rparr>"

definition p_room_req :: http_request where
  "p_room_req = \<lparr>rq_method = Post_verb, rq_target = ''/api/private_room'', rq_version = 11,
     rq_keep_alive = True, rq_authorization = Some ''t'', rq_body = ''x''\<rparr>"


lemma transactions_on_one_connection_witness:
  "\<exists>c. in_transaction c (run_events (create_p_room (demo_env (live_mysql (\<lambda>q. []) (\<lambda>q. 2))) p_room_req) demo_sys)"
proof -
  have "healthy (env_mysql (demo_env (live_mysql (\<lambda>q. []) (\<lambda>q. 2))))" "pool_ok demo_sys"
    by (simp_all add: demo_env_def demo_sys_def live_healthy pool_ok_def)
  from transactions_on_one_connection [OF this, of p_room_req] show ?thesis by blast
qed

end
