(* ===== verification/SysMoves.thy ===== *)
theory SysMoves
  imports RequestHandler WsHandler
begin

text \<open>
  What a handler can do to the part of the state that WebSocket sessions share: it leaves the
  table and the objects alone while it talks to the database, or looks users up and posts to the
  sessions it found. The judgement \<open>keeps\<close> follows the program combinators: requests are
  \<open>sys_quiet\<close>, messages are \<open>sys_moves\<close>.
\<close>

section \<open>Moves of the shared state\<close>

text \<open>The messages posted to sessions in a piece of history.\<close>

fun posts :: "event list \<Rightarrow> (nat \<times> string) list" where
  "posts [] = []"
| "posts (Post h m # es) = (h, m) # posts es"
| "posts (e # es) = posts es"

lemma posts_append [simp]: "posts (es @ es') = posts es @ posts es'"
  by (induction es rule: posts.induct) simp_all

lemma posts_Post [simp]: "posts (map (\<lambda>h. Post h m) hs) = map (\<lambda>h. (h, m)) hs"
  by (induction hs) simp_all

lemma posts_iff: "(h, m) \<in> set (posts es) \<longleftrightarrow> Post h m \<in> set es"
  by (induction es rule: posts.induct) auto

lemma posts_closing [simp]: "closing es \<Longrightarrow> posts es = []"
  by (auto simp: closing_def)

definition sys_quiet :: "'w sys \<Rightarrow> 'w sys \<Rightarrow> bool" where
  "sys_quiet s t \<longleftrightarrow> sys_sessions t = sys_sessions s \<and> sys_alive t = sys_alive s \<and>
     (\<exists>tr. db_log t = db_log s @ tr \<and> posts tr = [])"

definition sys_send :: "u64 list \<Rightarrow> string \<Rightarrow> 'w sys \<Rightarrow> 'w sys" where
  "sys_send us msg s = (purge s us)\<lparr>db_log := db_log s @ map (\<lambda>h. Post h msg) (handles s us)\<rparr>"

inductive sys_moves :: "'w sys \<Rightarrow> 'w sys \<Rightarrow> bool" where
  stay: "sys_moves s s"
| quiet_move: "sys_moves s t \<Longrightarrow> sys_quiet t u \<Longrightarrow> sys_moves s u"
| send_move: "sys_moves s t \<Longrightarrow> sys_moves s (sys_send us msg t)"

lemma sys_moves_trans: "sys_moves t u \<Longrightarrow> sys_moves s t \<Longrightarrow> sys_moves s u"
  by (induction rule: sys_moves.induct) (auto intro: sys_moves.intros)

lemma sys_moves_quiet: "sys_quiet s t \<Longrightarrow> sys_moves s t"
  by (rule quiet_move [OF stay])

text \<open>Moves only add to the history, change nobody's presence, and post only to present users' sessions.\<close>

lemma online_purge: "online (purge s us) = online s"
  by (rule ext) (auto simp: purge_def online_def split: option.splits)

lemma purge_log [simp]: "db_log (purge s us) = db_log s"
  by (simp add: purge_def)

lemma online_cong: "sys_sessions t = sys_sessions s \<Longrightarrow> sys_alive t = sys_alive s \<Longrightarrow> online t = online s"
  by (rule ext) (simp add: online_def split: option.split)

lemma online_log: "online (s\<lparr>db_log := l\<rparr>) = online s"
  by (rule online_cong) simp_all

lemma sys_moves_log:
  assumes "sys_moves s t"
  shows "online t = online s \<and>
    (\<exists>tr. db_log t = db_log s @ tr \<and> (\<forall>h m. Post h m \<in> set tr \<longrightarrow> (\<exists>u. online s u = Some h)))"
  using assms
proof (induction rule: sys_moves.induct)
  case (quiet_move s t u)
  have "online u = online t" using quiet_move.hyps(2) by (intro online_cong) (simp_all add: sys_quiet_def)
  with quiet_move show ?case by (auto simp: sys_quiet_def simp flip: posts_iff)
next
  case (send_move s t us msg)
  have "\<exists>u. online t u = Some h" if "h \<in> set (handles t us)" for h
    using that by (auto simp: handles_def map_filter_def)
  with send_move.IH show ?case by (auto simp: sys_send_def online_purge online_log) blast
qed simp

section \<open>The judgement\<close>

definition keeps :: "('w sys \<Rightarrow> 'w sys \<Rightarrow> bool) \<Rightarrow> ('w sys, 'a) prog \<Rightarrow> bool" where
  "keeps R m \<longleftrightarrow> (\<forall>s. R s (snd (m s)))"

lemma keepsD: "keeps R m \<Longrightarrow> m s = (r, t) \<Longrightarrow> R s t"
  unfolding keeps_def by (metis snd_conv)

text \<open>The rules hold for every relation that composes and allows what the database does.\<close>

locale handler_moves =
  fixes R :: "'w sys \<Rightarrow> 'w sys \<Rightarrow> bool"
  assumes allowed: "sys_quiet s t \<Longrightarrow> R s t"
    and trans: "R s t \<Longrightarrow> R t u \<Longrightarrow> R s u"
begin

lemma wp_rule: "(\<And>s. wp m (\<lambda>r t. sys_quiet s t) s) \<Longrightarrow> keeps R m"
  unfolding keeps_def wp_def by (metis (mono_tags, lifting) case_prod_beta allowed)

lemma plain_rule:
  "keeps R (ret x)" "keeps R (raise e)" "keeps R undef" "keeps R (lift v)" "keeps R (gets f)"
  by (rule wp_rule, simp add: wp_simps sys_quiet_def)+

lemma andthen_rule:
  assumes "keeps R m" "\<And>x. keeps R (f x)"
  shows "keeps R (andthen m f)"
  unfolding keeps_def
proof
  fix s
  obtain r t where run: "m s = (r, t)" by (cases "m s")
  note m = keepsD [OF assms(1) run]
  show "R s (snd (andthen m f s))"
  proof (cases r)
    case (Ret x)
    have "R t (snd (f x t))" using assms(2) by (simp add: keeps_def)
    then show ?thesis using run Ret m by (simp add: andthen_def) (rule trans)
  qed (use run m in \<open>simp_all add: andthen_def\<close>)
qed

lemma try_catch_rule:
  assumes "keeps R m" "\<And>e. keeps R (h e)"
  shows "keeps R (try_catch m h)"
  unfolding keeps_def
proof
  fix s
  obtain r t where run: "m s = (r, t)" by (cases "m s")
  note m = keepsD [OF assms(1) run]
  show "R s (snd (try_catch m h s))"
  proof (cases r)
    case (Throw e)
    have "R t (snd (h e t))" using assms(2) by (simp add: keeps_def)
    then show ?thesis using run Throw m by (simp add: try_catch_def) (rule trans)
  qed (use run m in \<open>simp_all add: try_catch_def\<close>)
qed

lemma with_dtor_rule:
  assumes "keeps R m" "keeps R d"
  shows "keeps R (with_dtor m d)"
  unfolding keeps_def
proof
  fix s
  obtain r t where run: "m s = (r, t)" by (cases "m s")
  obtain q u where d: "d t = (q, u)" by (cases "d t")
  note m = keepsD [OF assms(1) run] and u = keepsD [OF assms(2) d]
  show "R s (snd (with_dtor m d s))"
    using run d m trans [OF m u] by (cases r; cases q) (simp_all add: with_dtor_def)
qed

lemma if_rule: "keeps R m \<Longrightarrow> keeps R n \<Longrightarrow> keeps R (if b then m else n)"
  by simp

lemma cases_rule:
  "(\<And>x. keeps R (f x)) \<Longrightarrow> keeps R m \<Longrightarrow> keeps R (case v of None \<Rightarrow> m | Some x \<Rightarrow> f x)"
  "(\<And>x. keeps R (f' x)) \<Longrightarrow> (\<And>x. keeps R (g x)) \<Longrightarrow> keeps R (case z of Inl x \<Rightarrow> f' x | Inr x \<Rightarrow> g x)"
  "keeps R n \<Longrightarrow> (\<And>x xs. keeps R (k x xs)) \<Longrightarrow> keeps R (case l of [] \<Rightarrow> n | x # xs \<Rightarrow> k x xs)"
  "(\<And>x. keeps R (i x)) \<Longrightarrow> keeps R j \<Longrightarrow> (\<And>x. keeps R (i' x)) \<Longrightarrow>
     keeps R (case c of Opened x \<Rightarrow> i x | NoSuchFile \<Rightarrow> j | OpenFailed x \<Rightarrow> i' x)"
  by (auto split: option.splits sum.splits list.splits open_result.splits)

text \<open>The database, the id generator, libsodium.\<close>

lemma statements_rule:
  "keeps R (execute_query M D sql ps)" "keeps R (execute_update M D sql ps)" "keeps R (begin_transaction M)"
  "keeps R (commit M)" "keeps R (rollback M)" "keeps R (sf_next E)" "keeps R (outside f)"
  by (rule wp_rule, rule wp_intros; simp add: sys_quiet_def)+

lemma auth_rule: "keeps R (generate_login_token E u i)" "keeps R (hash_password E p)"
  unfolding generate_login_token_def hash_password_def
  by (intro andthen_rule cases_rule plain_rule statements_rule)+

lemma with_conn_rule:
  assumes "keeps R m"
  shows "keeps R (with_conn M D m)"
proof -
  have "keeps R (raii_ctor M D)" by (rule wp_rule, rule wp_quiet [OF quiet_raii(2)]) (simp add: sys_quiet_def)
  moreover have "keeps R (raii_dtor M)" by (rule wp_rule, rule wp_raii_dtor) (simp add: sys_quiet_def)
  ultimately show ?thesis unfolding with_conn_def by (intro andthen_rule with_dtor_rule assms)
qed

lemmas rules = plain_rule andthen_rule try_catch_rule if_rule cases_rule statements_rule auth_rule with_conn_rule

text \<open>Requests.\<close>

lemma http_handlers:
  "keeps R (create_g_room E req)" "keeps R (create_p_room E req)" "keeps R (delete_room E req r)"
  "keeps R (invite_member E req r)" "keeps R (handle_login E req)" "keeps R (handle_register E req)"
  "keeps R (query_rooms E ctx)" "keeps R (handle_assets E ctx)"
proof -
  show "keeps R (create_g_room E req)" unfolding create_g_room_def create_g_room_body_def by (intro rules)
  show "keeps R (create_p_room E req)" unfolding create_p_room_def create_p_room_body_def by (intro rules)
  show "keeps R (delete_room E req r)" unfolding delete_room_def delete_room_body_def by (intro rules)
  show "keeps R (invite_member E req r)" unfolding invite_member_def by (intro rules)
  show "keeps R (handle_login E req)" unfolding handle_login_def login_body_def by (intro rules)
  show "keeps R (handle_register E req)" unfolding handle_register_def register_body_def by (intro rules)
  show "keeps R (query_rooms E ctx)" unfolding query_rooms_def by (intro rules)
  show "keeps R (handle_assets E ctx)" unfolding handle_assets_def Let_def by (intro rules)
qed

lemma handle_request_rule: "keeps R (handle_request E req)"
  unfolding handle_request_def handle_chat_room_def Let_def by (intro rules http_handlers)

end

section \<open>The two relations\<close>

lemma sys_quiet_refl: "sys_quiet s s"
  by (simp add: sys_quiet_def)

lemma sys_quiet_trans: "sys_quiet s t \<Longrightarrow> sys_quiet t u \<Longrightarrow> sys_quiet s u"
  by (auto simp: sys_quiet_def)

interpretation quiet_moves: handler_moves sys_quiet
  by unfold_locales (auto intro: sys_quiet_trans)

interpretation all_moves: handler_moves sys_moves
  by unfold_locales (auto intro: sys_moves_quiet sys_moves_trans)

text \<open>Messages to sessions.\<close>

lemma moving_deliver: "keeps sys_moves (andthen (lock_all us) (\<lambda>hs. post_all hs msg))"
proof -
  have "snd (andthen (lock_all us) (\<lambda>hs. post_all hs msg) s) = sys_send us msg s" for s
    by (simp add: deliver_run sys_send_def)
  then show ?thesis unfolding keeps_def using send_move [OF stay] by metis
qed

lemma moving_write_to: "keeps sys_moves (write_to u msg)"
proof -
  have "snd (write_to u msg s) = sys_send [u] msg s" for s
    by (cases s) (auto simp: write_to_run sys_send_def purge_def handles_def map_filter_simps fun_eq_iff split: option.split)
  then show ?thesis unfolding keeps_def using send_move [OF stay] by metis
qed

lemma moving_write_to_room: "keeps sys_moves (write_to_room E room msg)"
  unfolding write_to_room_def by (intro all_moves.andthen_rule moving_deliver all_moves.rules)

section \<open>The handlers\<close>

lemma moving_handle_message: "keeps sys_moves (handle_message E msg c)"
  unfolding handle_message_def handle_parsed_def handle_private_message_def handle_group_message_def
  by (intro all_moves.rules moving_write_to moving_write_to_room)

end
