(* ===== verification/WsWorld.thy ===== *)
theory WsWorld
  imports WsSession
begin

text \<open>
  All WebSocket sessions of a server at once, with the table they register in and the workers that
  send to them: upgrades, reads, posted sends, writes, the end of a session's last reference and its
  destructor, in any interleaving. A worker that sends holds references between the locked
  lookup and the posts. The steps run the operations of \<open>WsSession\<close> and \<open>WsSessionMgr\<close>.
\<close>

section \<open>State\<close>

text \<open>
  A session object: its members, what it has outstanding (accepts, reads, writes, sends posted to its
  strand) and, as history, the messages posted to it with the user they were addressed to, the
  messages whose write succeeded, and whether a write failed.
\<close>

record ws_object =
  wo_session :: ws_session
  wo_accepting :: nat
  wo_reads :: nat
  wo_writing :: "string list"
  wo_posted :: "string list"
  wo_inbox :: "(u64 \<times> string) list"
  wo_written :: "string list"
  wo_failed :: bool

text \<open>
  \<open>ww_held\<close>: the references workers hold, each with the user and the message it is for. The three
  flags are history: someone logged in while a session of his existed, an upgrade was not
  authenticated, undefined behaviour occurred.
\<close>

record 'w ws_world =
  ww_sys :: "'w sys"
  ww_pool :: "(string \<times> user_claims) pool"
  ww_objs :: "nat \<Rightarrow> ws_object option"
  ww_next :: nat
  ww_held :: "(nat \<times> u64 \<times> string) list"
  ww_relogin :: bool
  ww_rejected :: bool
  ww_undef :: bool

definition new_object :: "ws_session \<Rightarrow> ws_object" where
  "new_object ws = \<lparr>wo_session = ws, wo_accepting = 0, wo_reads = 0, wo_writing = [], wo_posted = [],
     wo_inbox = [], wo_written = [], wo_failed = False\<rparr>"

definition ws_world_start :: "'w sys \<Rightarrow> nat \<Rightarrow> 'w ws_world" where
  "ws_world_start s n = \<lparr>ww_sys = s\<lparr>sys_sessions := (\<lambda>_. None), sys_alive := (\<lambda>_. False)\<rparr>, ww_pool = new_pool n,
     ww_objs = (\<lambda>_. None), ww_next = 0, ww_held = [], ww_relogin = False, ww_rejected = False, ww_undef = False\<rparr>"

fun ws_start :: "ws_effect \<Rightarrow> ws_object \<Rightarrow> ws_object" where
  "ws_start Async_accept x = x\<lparr>wo_accepting := Suc (wo_accepting x)\<rparr>"
| "ws_start Async_read x = x\<lparr>wo_reads := Suc (wo_reads x)\<rparr>"
| "ws_start (Async_write m) x = x\<lparr>wo_writing := wo_writing x @ [m]\<rparr>"

text \<open>\<open>send\<close>: \<open>net::post\<close> of \<open>on_send\<close> to the strand.\<close>

definition ws_post :: "u64 \<Rightarrow> string \<Rightarrow> ws_object \<Rightarrow> ws_object" where
  "ws_post u msg x = x\<lparr>wo_posted := wo_posted x @ [msg], wo_inbox := wo_inbox x @ [(u, msg)]\<rparr>"

definition put_object :: "nat \<Rightarrow> ws_object \<Rightarrow> 'w ws_world \<Rightarrow> 'w ws_world" where
  "put_object h x w = w\<lparr>ww_objs := (ww_objs w)(h \<mapsto> x)\<rparr>"

definition idle_object :: "ws_object \<Rightarrow> bool" where
  "idle_object x \<longleftrightarrow> wo_accepting x = 0 \<and> wo_reads x = 0 \<and> wo_writing x = [] \<and> wo_posted x = []"

text \<open>The user a session was authenticated for.\<close>

definition user_of :: "ws_object \<Rightarrow> u64 option" where
  "user_of x = map_option uc_id (wss_claims (wo_session x))"

definition owner :: "'w ws_world \<Rightarrow> nat \<Rightarrow> u64 option" where
  "owner w h = Option.bind (ww_objs w h) user_of"

definition logged_in :: "'w ws_world \<Rightarrow> u64 \<Rightarrow> bool" where
  "logged_in w u \<longleftrightarrow> (\<exists>h. owner w h = Some u)"

text \<open>What \<open>lock_all\<close> finds, with the user each reference was found for.\<close>

definition addressed :: "'w sys \<Rightarrow> u64 list \<Rightarrow> string \<Rightarrow> (nat \<times> u64 \<times> string) list" where
  "addressed s us msg = List.map_filter (\<lambda>u. map_option (\<lambda>h. (h, u, msg)) (online s u)) us"

lemma addressed_handles: "map fst (addressed s us msg) = handles s us"
  by (induction us) (auto simp: addressed_def handles_def map_filter_simps split: option.split)

lemma addressed_iff: "(h, u, m) \<in> set (addressed s us msg) \<longleftrightarrow> u \<in> set us \<and> online s u = Some h \<and> m = msg"
  by (induction us) (auto simp: addressed_def map_filter_simps split: option.split)

section \<open>Steps\<close>

text \<open>
  What sessions do. \<open>connect\<close>: an HTTP session makes the object and calls \<open>do_accept\<close>. \<open>expire\<close>: the
  last reference goes, so \<open>weak_ptr::lock\<close> fails from now on; \<open>destroy\<close>: the destructor's body.
\<close>

inductive ws_session_step :: "'w env \<Rightarrow> 'w ws_world \<Rightarrow> 'w ws_world \<Rightarrow> bool" for E where
  connect: "h = ww_next w \<Longrightarrow>
    do_accept E h authorization new_ws_session
      ((ww_sys w)\<lparr>sys_alive := (sys_alive (ww_sys w))(h := True)\<rparr>) = (Ret (ws, es), s') \<Longrightarrow>
    ws_session_step E w (w\<lparr>ww_sys := s', ww_next := Suc h,
      ww_objs := (ww_objs w)(h \<mapsto> fold ws_start es (new_object ws)),
      ww_relogin := (ww_relogin w \<or> (\<exists>u. user_of (new_object ws) = Some u \<and> logged_in w u)),
      ww_rejected := (ww_rejected w \<or> wss_claims ws = None)\<rparr>)"
| accepted: "ww_objs w h = Some x \<Longrightarrow> 0 < wo_accepting x \<Longrightarrow>
    ws_session_step E w
      (put_object h (fold ws_start (ws_on_accept ec) (x\<lparr>wo_accepting := wo_accepting x - 1\<rparr>)) w)"
| received: "ww_objs w h = Some x \<Longrightarrow> 0 < wo_reads x \<Longrightarrow>
    ws_on_read Pair ec (if ec = Ok then ws_arrive msg (wo_session x) else wo_session x) (ww_pool w) =
      (Ret (ws, es), p) \<Longrightarrow>
    ws_session_step E w
      ((put_object h (fold ws_start es (x\<lparr>wo_session := ws, wo_reads := wo_reads x - 1\<rparr>)) w)\<lparr>ww_pool := p\<rparr>)"
| received_undef: "ww_objs w h = Some x \<Longrightarrow> 0 < wo_reads x \<Longrightarrow>
    ws_on_read Pair ec (if ec = Ok then ws_arrive msg (wo_session x) else wo_session x) (ww_pool w) = (Undef, p) \<Longrightarrow>
    ws_session_step E w (w\<lparr>ww_undef := True\<rparr>)"
| sent: "ww_objs w h = Some x \<Longrightarrow> wo_posted x = m # ms \<Longrightarrow> ws_on_send m (wo_session x) = (ws, es) \<Longrightarrow>
    ws_session_step E w (put_object h (fold ws_start es (x\<lparr>wo_session := ws, wo_posted := ms\<rparr>)) w)"
| written: "ww_objs w h = Some x \<Longrightarrow> wo_writing x = m # ms \<Longrightarrow> ws_on_write ec (wo_session x) = (ws, es) \<Longrightarrow>
    ws_session_step E w (put_object h (fold ws_start es (x\<lparr>wo_session := ws, wo_writing := ms,
      wo_written := (if ec = Ok then wo_written x @ [m] else wo_written x), wo_failed := (wo_failed x \<or> ec \<noteq> Ok)\<rparr>)) w)"
| expire: "ww_objs w h = Some x \<Longrightarrow> idle_object x \<Longrightarrow> h \<notin> fst ` set (ww_held w) \<Longrightarrow>
    ws_session_step E w (w\<lparr>ww_sys := (ww_sys w)\<lparr>sys_alive := (sys_alive (ww_sys w))(h := False)\<rparr>\<rparr>)"
| destroy: "ww_objs w h = Some x \<Longrightarrow> \<not> sys_alive (ww_sys w) h \<Longrightarrow> ws_dtor (wo_session x) (ww_sys w) = (Ret (), s') \<Longrightarrow>
    ws_session_step E w (w\<lparr>ww_sys := s', ww_objs := (ww_objs w)(h := None)\<rparr>)"
| destroy_undef: "ww_objs w h = Some x \<Longrightarrow> \<not> sys_alive (ww_sys w) h \<Longrightarrow>
    ws_dtor (wo_session x) (ww_sys w) = (Undef, s') \<Longrightarrow> ws_session_step E w (w\<lparr>ww_undef := True\<rparr>)"

text \<open>
  With what workers do. \<open>send\<close>: the locked part of \<open>write_to\<close> (one user) or \<open>write_to_room\<close> (the
  members); \<open>post\<close>: one of its posts, after which the reference belongs to the strand; \<open>other\<close>:
  whatever else handlers do. Which tasks throw can differ from step to step.
\<close>

inductive ws_world_step :: "'w env \<Rightarrow> 'w ws_world \<Rightarrow> 'w ws_world \<Rightarrow> bool" for E where
  session: "ws_session_step E w w' \<Longrightarrow> ws_world_step E w w'"
| worker: "pool_step throws (ww_pool w) p \<Longrightarrow> ws_world_step E w (w\<lparr>ww_pool := p\<rparr>)"
| send: "lock_all us (ww_sys w) = (Ret hs, s') \<Longrightarrow> hs = map fst held \<Longrightarrow> held = addressed (ww_sys w) us msg \<Longrightarrow>
    ws_world_step E w (w\<lparr>ww_sys := s', ww_held := ww_held w @ held\<rparr>)"
| post: "ww_held w = as @ (h, u, msg) # bs \<Longrightarrow> ww_objs w h = Some x \<Longrightarrow>
    ws_world_step E w
      ((put_object h (ws_post u msg x) w)\<lparr>ww_held := as @ bs\<rparr>)"
| other: "sys_sessions s' = sys_sessions (ww_sys w) \<Longrightarrow> sys_alive s' = sys_alive (ww_sys w) \<Longrightarrow>
    ws_world_step E w (w\<lparr>ww_sys := s'\<rparr>)"

inductive ws_world_reach :: "'w env \<Rightarrow> 'w ws_world \<Rightarrow> bool" for E where
  start: "ws_world_reach E (ws_world_start s n)"
| step: "ws_world_reach E w \<Longrightarrow> \<not> ww_undef w \<Longrightarrow> ws_world_step E w w' \<Longrightarrow>
    ws_world_reach E w'"

section \<open>Invariants\<close>

text \<open>
  An object: one accept or read at a time, and only after authentication; what was posted is written,
  queued, or still on the strand, in this order; a write is outstanding exactly for the front of the
  queue, unless one has failed; every message is for the session's own user.
\<close>

definition object_ok :: "ws_object \<Rightarrow> bool" where
  "object_ok x \<longleftrightarrow> wo_accepting x + wo_reads x \<le> 1 \<and>
     (wo_accepting x + wo_reads x \<noteq> 0 \<longrightarrow> wss_claims (wo_session x) \<noteq> None) \<and>
     map snd (wo_inbox x) = wo_written x @ wss_queue (wo_session x) @ wo_posted x \<and>
     wo_writing x = (if wo_failed x then [] else take 1 (wss_queue (wo_session x))) \<and>
     (wo_failed x \<longrightarrow> wss_queue (wo_session x) \<noteq> []) \<and>
     (\<forall>e \<in> set (wo_inbox x). user_of x = Some (fst e))"

text \<open>The table, the references of workers and the objects agree.\<close>

definition table_ok :: "'w ws_world \<Rightarrow> bool" where
  "table_ok w \<longleftrightarrow>
     (\<forall>h. ww_objs w h \<noteq> None \<longrightarrow> h < ww_next w) \<and>
     (\<forall>u h. sys_sessions (ww_sys w) u = Some h \<longrightarrow> owner w h = Some u) \<and>
     (\<forall>h. sys_alive (ww_sys w) h \<longrightarrow> ww_objs w h \<noteq> None) \<and>
     (\<forall>e \<in> set (ww_held w). sys_alive (ww_sys w) (fst e) \<and> owner w (fst e) = Some (fst (snd e)))"

definition objects_ok :: "'w ws_world \<Rightarrow> bool" where
  "objects_ok w \<longleftrightarrow> (\<forall>h x. ww_objs w h = Some x \<longrightarrow> object_ok x)"

text \<open>While nobody logs in twice, each user has one object, and it is registered while it lives.\<close>

definition presence_ok :: "'w ws_world \<Rightarrow> bool" where
  "presence_ok w \<longleftrightarrow> ww_relogin w \<or>
     (\<forall>h h' u. owner w h = Some u \<longrightarrow> owner w h' = Some u \<longrightarrow> h = h') \<and>
     (\<forall>h u. owner w h = Some u \<longrightarrow> sys_alive (ww_sys w) h \<longrightarrow> sys_sessions (ww_sys w) u = Some h)"

definition defined_ok :: "'w ws_world \<Rightarrow> bool" where
  "defined_ok w \<longleftrightarrow> ww_rejected w \<or>
     \<not> ww_undef w \<and> (\<forall>h. ww_objs w h \<noteq> None \<longrightarrow> owner w h \<noteq> None)"

text \<open>What the operations do, as equations.\<close>

lemma do_accept_cases:
  assumes "do_accept E h authorization ws s = (Ret (ws', es), s')"
  obtains (accepted) c where "ws' = ws\<lparr>wss_claims := Some c\<rparr>" "es = [Async_accept]"
      "s' = s\<lparr>sys_sessions := (sys_sessions s)(uc_id c \<mapsto> h)\<rparr>"
  | (refused) "ws' = ws" "es = []" "s' = s"
proof (cases authorization)
  case None
  with assms refused show thesis by (auto simp: do_accept_def try_catch_def raise_def ret_def)
next
  case (Some tok)
  then show thesis
  proof (cases "tok = []")
    case True
    with assms Some refused show thesis by (auto simp: do_accept_def try_catch_def raise_def ret_def)
  next
    case False
    then show thesis
      using assms Some accepted refused
      by (cases "extract_user_claims E tok")
        (auto simp: do_accept_def auth_user_def add_session_def try_catch_def andthen_def lift_def gets_def
          modify_def ret_def split: option.splits)
  qed
qed

lemma ws_dtor_Ret:
  "ws_dtor ws s = (Ret (), s') \<longleftrightarrow>
     (\<exists>c. wss_claims ws = Some c \<and> s' = s\<lparr>sys_sessions := (sys_sessions s)(uc_id c := None)\<rparr>)"
  by (cases s; auto simp: ws_dtor_def remove_session_def andthen_def gets_def modify_def ret_def undef_def fun_upd_idem
      split: option.splits)

lemma ws_dtor_Undef: "ws_dtor ws s = (Undef, s') \<Longrightarrow> wss_claims ws = None"
  by (auto simp: ws_dtor_def remove_session_def andthen_def gets_def modify_def ret_def split: option.splits if_splits)

lemma ws_on_read_Ret:
  assumes "ws_on_read task ec ws p = (Ret (ws', es), p')"
  shows "ws' = ws \<and> (es = [] \<or> es = [Async_read] \<and> wss_claims ws \<noteq> None)"
  using assms by (auto simp: ws_on_read_def ret_def undef_def andthen_def add_task_def split: if_splits option.splits)

lemma ws_on_read_Undef: "ws_on_read task ec ws p = (Undef, p') \<Longrightarrow> wss_claims ws = None"
  by (auto simp: ws_on_read_def ret_def undef_def andthen_def add_task_def split: if_splits option.splits)

section \<open>Objects\<close>

lemma user_of_update [simp]:
  "user_of (x\<lparr>wo_accepting := n\<rparr>) = user_of x" "user_of (x\<lparr>wo_reads := n\<rparr>) = user_of x"
  "user_of (x\<lparr>wo_posted := ms\<rparr>) = user_of x" "user_of (x\<lparr>wo_inbox := es\<rparr>) = user_of x"
  by (simp_all add: user_of_def)

lemma ws_start_user [simp]: "user_of (fold ws_start es x) = user_of x"
proof (induction es arbitrary: x)
  case (Cons e es)
  then show ?case by (cases e) (simp_all add: user_of_def)
qed simp

lemma object_new:
  "object_ok (fold ws_start [] (new_object new_ws_session))"
  "object_ok (fold ws_start [Async_accept] (new_object (new_ws_session\<lparr>wss_claims := Some c\<rparr>)))"
  by (simp_all add: object_ok_def new_object_def new_ws_session_def)

lemma object_accepted:
  assumes "object_ok x" "0 < wo_accepting x"
  shows "object_ok (fold ws_start (ws_on_accept ec) (x\<lparr>wo_accepting := wo_accepting x - 1\<rparr>))"
  using assms by (auto simp: object_ok_def ws_on_accept_def user_of_def)

lemma object_received:
  assumes "object_ok x" "0 < wo_reads x" "es = [] \<or> es = [Async_read]"
  shows "object_ok (fold ws_start es (x\<lparr>wo_session := (if ec = Ok then ws_arrive msg (wo_session x) else wo_session x),
    wo_reads := wo_reads x - 1\<rparr>))"
  using assms by (auto simp: object_ok_def ws_arrive_def user_of_def)

lemma object_post:
  assumes "object_ok x" "user_of x = Some u"
  shows "object_ok (ws_post u msg x)"
  using assms by (auto simp: object_ok_def ws_post_def user_of_def)

lemma object_sent:
  assumes "object_ok x" "wo_posted x = m # ms" "ws_on_send m (wo_session x) = (ws, es)"
  shows "object_ok (fold ws_start es (x\<lparr>wo_session := ws, wo_posted := ms\<rparr>))" "wss_claims ws = wss_claims (wo_session x)"
  using assms by (auto simp: object_ok_def user_of_def ws_on_send_def Let_def split: if_splits)
    (auto simp: take_Suc neq_Nil_conv)

lemma object_written:
  assumes "object_ok x" "wo_writing x = m # ms" "ws_on_write ec (wo_session x) = (ws, es)"
  shows "object_ok (fold ws_start es (x\<lparr>wo_session := ws, wo_writing := ms,
      wo_written := (if ec = Ok then wo_written x @ [m] else wo_written x), wo_failed := (wo_failed x \<or> ec \<noteq> Ok)\<rparr>))"
    "wss_claims ws = wss_claims (wo_session x)"
proof -
  from assms(1,2) obtain q where q: "wss_queue (wo_session x) = m # q" "ms = []" "\<not> wo_failed x"
    by (cases "wss_queue (wo_session x)") (auto simp: object_ok_def split: if_splits)
  with assms show "object_ok (fold ws_start es (x\<lparr>wo_session := ws, wo_writing := ms,
      wo_written := (if ec = Ok then wo_written x @ [m] else wo_written x), wo_failed := (wo_failed x \<or> ec \<noteq> Ok)\<rparr>))"
    "wss_claims ws = wss_claims (wo_session x)"
    by (auto simp: object_ok_def user_of_def ws_on_write_def Let_def take_Suc split: if_splits) fastforce+
qed

text \<open>Nothing refers to an object that was never authenticated.\<close>

lemma object_unauthenticated:
  assumes "object_ok x" "wss_claims (wo_session x) = None"
  shows "idle_object x"
proof -
  have "wo_inbox x = []" using assms by (cases "wo_inbox x") (auto simp: object_ok_def user_of_def)
  with assms show ?thesis by (auto simp: object_ok_def idle_object_def)
qed

section \<open>Preservation\<close>

definition world_ok :: "'w ws_world \<Rightarrow> bool" where
  "world_ok w \<longleftrightarrow> objects_ok w \<and> table_ok w \<and> presence_ok w \<and> defined_ok w"

text \<open>A change of one object that keeps its user.\<close>

lemma put_object_owner:
  "ww_objs w h = Some x \<Longrightarrow> user_of y = user_of x \<Longrightarrow> owner (put_object h y w) = owner w"
  by (auto simp: owner_def put_object_def fun_eq_iff)

lemma put_object_ok:
  assumes "world_ok w" "ww_objs w h = Some x" "object_ok y" "user_of y = user_of x"
  shows "world_ok (put_object h y w)"
proof -
  note own = put_object_owner [OF assms(2,4)]
  have "objects_ok (put_object h y w)"
    using assms(1,3) by (auto simp: world_ok_def objects_ok_def put_object_def)
  moreover have "table_ok (put_object h y w)"
    using assms(1,2) own by (auto simp: world_ok_def table_ok_def put_object_def)
  moreover have "presence_ok (put_object h y w)"
    using assms(1) own by (simp add: world_ok_def presence_ok_def put_object_def)
  moreover have "defined_ok (put_object h y w)"
    using assms(1,2) own by (auto simp: world_ok_def defined_ok_def put_object_def)
  ultimately show ?thesis by (simp add: world_ok_def)
qed

lemma world_ok_frame:
  "owner (w\<lparr>ww_pool := p\<rparr>) = owner w" "owner (w\<lparr>ww_sys := s'\<rparr>) = owner w" "owner (w\<lparr>ww_held := bs\<rparr>) = owner w"
  "owner (w\<lparr>ww_undef := b\<rparr>) = owner w"
  by (simp_all add: owner_def fun_eq_iff)

lemma world_ok_update [simp]:
  "world_ok (w\<lparr>ww_pool := p\<rparr>) = world_ok w"
  "sys_sessions s' = sys_sessions (ww_sys w) \<Longrightarrow> sys_alive s' = sys_alive (ww_sys w) \<Longrightarrow>
     world_ok (w\<lparr>ww_sys := s'\<rparr>) = world_ok w"
  by (simp_all add: world_ok_def objects_ok_def table_ok_def presence_ok_def defined_ok_def world_ok_frame)

lemma world_ok_held: "world_ok w \<Longrightarrow> set bs \<subseteq> set (ww_held w) \<Longrightarrow> world_ok (w\<lparr>ww_held := bs\<rparr>)"
  unfolding world_ok_def
  by (simp add: objects_ok_def table_ok_def presence_ok_def defined_ok_def world_ok_frame) blast

lemma world_ok_start: "world_ok (ws_world_start s n)"
  by (simp add: world_ok_def objects_ok_def table_ok_def presence_ok_def defined_ok_def ws_world_start_def owner_def)

lemma world_ok_connect:
  assumes "world_ok w" "do_accept E (ww_next w) authorization new_ws_session
      ((ww_sys w)\<lparr>sys_alive := (sys_alive (ww_sys w))(ww_next w := True)\<rparr>) = (Ret (ws, es), s')"
  shows "world_ok (w\<lparr>ww_sys := s', ww_next := Suc (ww_next w),
      ww_objs := (ww_objs w)(ww_next w \<mapsto> fold ws_start es (new_object ws)),
      ww_relogin := (ww_relogin w \<or> (\<exists>u. user_of (new_object ws) = Some u \<and> logged_in w u)),
      ww_rejected := (ww_rejected w \<or> wss_claims ws = None)\<rparr>)" (is "world_ok ?w")
proof -
  let ?n = "ww_next w"
  have table: "table_ok w" using assms(1) by (simp add: world_ok_def)
  then have "ww_objs w ?n = None" unfolding table_ok_def by (metis less_irrefl)
  with table have new: "ww_objs w ?n = None" "\<not> sys_alive (ww_sys w) ?n" "owner w ?n = None"
    unfolding table_ok_def by (auto simp: owner_def)
  have held: "\<forall>e \<in> set (ww_held w). fst e \<noteq> ?n" using assms(1) new by (auto simp: world_ok_def table_ok_def)
  have own: "owner ?w = (owner w)(?n := user_of (new_object ws))"
    by (auto simp: owner_def fun_eq_iff)
  show ?thesis
    using assms(2)
  proof (cases rule: do_accept_cases)
    case (accepted c)
    have u: "user_of (new_object ws) = Some (uc_id c)" using accepted by (simp add: user_of_def new_object_def)
    have "objects_ok ?w" using assms(1) accepted object_new(2) by (auto simp: world_ok_def objects_ok_def)
    moreover have "table_ok ?w"
      using assms(1) accepted new held u unfolding world_ok_def table_ok_def own by (auto simp: less_Suc_eq)
    moreover have "presence_ok ?w"
      using assms(1) accepted new u unfolding world_ok_def presence_ok_def own by (auto simp: logged_in_def)
    moreover have "defined_ok ?w"
      using assms(1) accepted new u unfolding world_ok_def defined_ok_def own by auto
    ultimately show ?thesis by (simp add: world_ok_def)
  next
    case refused
    have u: "user_of (new_object ws) = None" using refused by (simp add: user_of_def new_object_def new_ws_session_def)
    have "objects_ok ?w" using assms(1) refused object_new(1) by (auto simp: world_ok_def objects_ok_def)
    moreover have "table_ok ?w"
      using assms(1) refused new held u unfolding world_ok_def table_ok_def own by (auto simp: less_Suc_eq)
    moreover have "presence_ok ?w"
      using assms(1) refused new u unfolding world_ok_def presence_ok_def own by auto
    moreover have "defined_ok ?w"
      using refused unfolding defined_ok_def by (simp add: new_ws_session_def)
    ultimately show ?thesis by (simp add: world_ok_def)
  qed
qed

lemma world_ok_send:
  assumes "world_ok w" "lock_all us (ww_sys w) = (Ret hs, s')"
  shows "world_ok (w\<lparr>ww_sys := s', ww_held := ww_held w @ addressed (ww_sys w) us msg\<rparr>)" (is "world_ok ?w")
proof -
  have s': "s' = purge (ww_sys w) us" using assms(2) by (simp add: lock_all_run)
  have own: "owner (w\<lparr>ww_sys := a, ww_held := b\<rparr>) = owner w" for a b by (simp add: owner_def fun_eq_iff)
  have new: "sys_alive (ww_sys w) (fst e) \<and> owner w (fst e) = Some (fst (snd e))"
    if "e \<in> set (addressed (ww_sys w) us msg)" for e
  proof -
    have "online (ww_sys w) (fst (snd e)) = Some (fst e)"
      using that addressed_iff [of "fst e" "fst (snd e)" "snd (snd e)" "ww_sys w" us msg] by simp
    with assms(1) show ?thesis
      by (auto simp: online_def world_ok_def table_ok_def split: option.splits if_splits)
  qed
  have "objects_ok ?w" using assms(1) by (simp add: world_ok_def objects_ok_def)
  moreover have "table_ok ?w"
    using assms(1) new unfolding world_ok_def table_ok_def s' purge_def
    by (auto simp: own online_def split: option.splits if_splits)
  moreover have "presence_ok ?w"
    using assms(1) unfolding world_ok_def presence_ok_def s' purge_def by (auto simp: own online_def)
  moreover have "defined_ok ?w" using assms(1) by (simp add: world_ok_def defined_ok_def own)
  ultimately show ?thesis by (simp add: world_ok_def)
qed

lemma world_ok_expire:
  assumes "world_ok w" "h \<notin> fst ` set (ww_held w)"
  shows "world_ok (w\<lparr>ww_sys := (ww_sys w)\<lparr>sys_alive := (sys_alive (ww_sys w))(h := False)\<rparr>\<rparr>)"
proof -
  let ?w = "w\<lparr>ww_sys := (ww_sys w)\<lparr>sys_alive := (sys_alive (ww_sys w))(h := False)\<rparr>\<rparr>"
  have "\<forall>e \<in> set (ww_held w). fst e \<noteq> h" using assms(2) by auto
  with assms(1) have "table_ok ?w" by (simp add: world_ok_def table_ok_def world_ok_frame)
  moreover have "presence_ok ?w" using assms(1) by (auto simp: world_ok_def presence_ok_def world_ok_frame)
  ultimately show ?thesis
    using assms(1) by (simp add: world_ok_def objects_ok_def defined_ok_def world_ok_frame)
qed

lemma world_ok_destroy:
  assumes "world_ok w" "ww_objs w h = Some x" "\<not> sys_alive (ww_sys w) h" "ws_dtor (wo_session x) (ww_sys w) = (Ret (), s')"
  shows "world_ok (w\<lparr>ww_sys := s', ww_objs := (ww_objs w)(h := None)\<rparr>)" (is "world_ok ?w")
proof -
  obtain u where u: "user_of x = Some u" "s' = (ww_sys w)\<lparr>sys_sessions := (sys_sessions (ww_sys w))(u := None)\<rparr>"
    using assms(4) by (auto simp: ws_dtor_Ret user_of_def)
  have own: "owner ?w = (owner w)(h := None)" by (auto simp: owner_def fun_eq_iff)
  have h: "owner w h = Some u" using assms(2) u(1) by (simp add: owner_def)
  have "\<forall>e \<in> set (ww_held w). fst e \<noteq> h" using assms(1,3) by (auto simp: world_ok_def table_ok_def)
  moreover have "\<forall>v. sys_sessions (ww_sys w) v = Some h \<longrightarrow> v = u" using assms(1) h by (auto simp: world_ok_def table_ok_def)
  ultimately have "table_ok ?w"
    using assms(1,3) u(2) unfolding world_ok_def table_ok_def own by auto
  moreover have "objects_ok ?w" using assms(1) by (simp add: world_ok_def objects_ok_def)
  moreover have "presence_ok ?w"
    using assms(1,3) u(2) h unfolding world_ok_def presence_ok_def own by auto
  moreover have "defined_ok ?w" using assms(1) unfolding world_ok_def defined_ok_def own by auto
  ultimately show ?thesis by (simp add: world_ok_def)
qed

text \<open>Undefined behaviour needs an object without a user.\<close>

lemma world_ok_undef:
  assumes "world_ok w" "ww_objs w h = Some x" "wss_claims (wo_session x) = None"
  shows "world_ok (w\<lparr>ww_undef := True\<rparr>)"
proof -
  have "owner w h = None" using assms(2,3) by (simp add: owner_def user_of_def)
  with assms(1,2) have "ww_rejected w" by (auto simp: world_ok_def defined_ok_def)
  with assms(1) show ?thesis
    by (simp add: world_ok_def objects_ok_def table_ok_def presence_ok_def defined_ok_def world_ok_frame)
qed

lemma world_ok_session_step:
  assumes "ws_session_step E w w'" "world_ok w"
  shows "world_ok w'"
  using assms
proof (induction rule: ws_session_step.induct)
  case (connect h w authorization ws es s')
  then show ?case using world_ok_connect by blast
next
  case (accepted w h x ec)
  then have "object_ok x" by (auto simp: world_ok_def objects_ok_def)
  with accepted show ?case
    by (intro put_object_ok [OF accepted.prems accepted.hyps(1)] object_accepted) simp_all
next
  case (received w h x ec msg ws es p)
  then have x: "object_ok x" by (auto simp: world_ok_def objects_ok_def)
  from ws_on_read_Ret [OF received.hyps(3)]
  have ws: "ws = (if ec = Ok then ws_arrive msg (wo_session x) else wo_session x)" "es = [] \<or> es = [Async_read]" by auto
  have u: "user_of (fold ws_start es (x\<lparr>wo_session := ws, wo_reads := wo_reads x - 1\<rparr>)) = user_of x"
    unfolding ws_start_user ws(1) by (simp add: user_of_def ws_arrive_def)
  have o: "object_ok (fold ws_start es (x\<lparr>wo_session := ws, wo_reads := wo_reads x - 1\<rparr>))"
    unfolding ws(1) using object_received [OF x received.hyps(2) ws(2)] .
  show ?case
    unfolding world_ok_update(1) by (rule put_object_ok [OF received.prems received.hyps(1) o u])
next
  case (received_undef w h x ec msg p)
  from ws_on_read_Undef [OF received_undef.hyps(3)] have "wss_claims (wo_session x) = None"
    by (auto simp: ws_arrive_def split: if_splits)
  with received_undef show ?case using world_ok_undef by blast
next
  case (sent w h x m ms ws es)
  then have x: "object_ok x" by (auto simp: world_ok_def objects_ok_def)
  note o = object_sent [OF x sent.hyps(2,3)]
  show ?case by (rule put_object_ok [OF sent.prems sent.hyps(1) o(1)]) (simp only: ws_start_user, simp add: user_of_def o(2))
next
  case (written w h x m ms ec ws es)
  then have x: "object_ok x" by (auto simp: world_ok_def objects_ok_def)
  note o = object_written [OF x written.hyps(2,3)]
  show ?case by (rule put_object_ok [OF written.prems written.hyps(1) o(1)]) (simp only: ws_start_user, simp add: user_of_def o(2))
next
  case (destroy_undef w h x s')
  then show ?case using world_ok_undef ws_dtor_Undef by blast
qed (simp_all add: world_ok_expire world_ok_destroy)

lemma world_ok_step:
  assumes "ws_world_step E w w'" "world_ok w"
  shows "world_ok w'"
  using assms
proof (induction rule: ws_world_step.induct)
  case (post w as h u msg bs x)
  then have "object_ok x" "owner w h = Some u" by (auto simp: world_ok_def objects_ok_def table_ok_def)
  with post.hyps(2) have "object_ok (ws_post u msg x)"
    by (intro object_post) (auto simp: owner_def)
  then have "world_ok (put_object h (ws_post u msg x) w)"
    by (rule put_object_ok [OF post.prems post.hyps(2)]) (simp add: user_of_def ws_post_def)
  then show ?case by (rule world_ok_held) (use post.hyps(1) in \<open>auto simp: put_object_def\<close>)
qed (simp_all add: world_ok_session_step world_ok_send)

lemma world_ok_reach: "ws_world_reach E w \<Longrightarrow> world_ok w"
  by (induction rule: ws_world_reach.induct) (auto intro: world_ok_start world_ok_step)


section \<open>What a session does with its messages\<close>

lemma object_reached:
  assumes "ws_world_reach E w" "ww_objs w h = Some x"
  shows "object_ok x"
  using world_ok_reach [OF assms(1)] assms(2) by (simp add: world_ok_def objects_ok_def)

text \<open>A user logs in and is sent a message, which goes out.\<close>

definition bob_session :: ws_session where
  "bob_session = new_ws_session\<lparr>wss_claims := Some \<lparr>uc_id = 7, uc_username = ''bob''\<rparr>\<rparr>"

definition bob_object :: ws_object where
  "bob_object = \<lparr>wo_session = bob_session, wo_accepting = 1, wo_reads = 0, wo_writing = [], wo_posted = [],
     wo_inbox = [(7, ''hi'')], wo_written = [''hi''], wo_failed = False\<rparr>"

definition bob_world :: "ws_object \<Rightarrow> (nat \<times> u64 \<times> string) list \<Rightarrow> unit ws_world" where
  "bob_world x held = (ws_world_start demo_sys 1)\<lparr>
     ww_sys := demo_sys\<lparr>sys_sessions := [7 \<mapsto> 0], sys_alive := (\<lambda>_. False)(0 := True)\<rparr>, ww_next := 1,
     ww_objs := [0 \<mapsto> x], ww_held := held\<rparr>"

lemma bob_world_simps [simp]:
  "ww_objs (bob_world x held) 0 = Some x" "ww_held (bob_world x held) = held" "\<not> ww_undef (bob_world x held)"
  "put_object 0 y (bob_world x held) = bob_world y held" "(bob_world x held)\<lparr>ww_held := held'\<rparr> = bob_world x held'"
  "\<not> ww_relogin (bob_world x held)" "\<not> ww_rejected (bob_world x held)" "sys_alive (ww_sys (bob_world x held)) 0"
  "sys_sessions (ww_sys (bob_world x held)) 7 = Some 0"
  by (simp_all add: bob_world_def put_object_def ws_world_start_def)

lemma bob_accept:
  "do_accept bob_env 0 (Some ''token'') new_ws_session (s\<lparr>sys_sessions := \<lambda>_. None, sys_alive := a\<rparr>) =
     (Ret (bob_session, [Async_accept]), s\<lparr>sys_sessions := [7 \<mapsto> 0], sys_alive := a\<rparr>)"
proof -
  have "extract_user_claims bob_env ''token'' = Ret \<lparr>uc_id = 7, uc_username = ''bob''\<rparr>"
    by (rule extract_login_claims [where p = "login_claims ''bob'' 7 0"]) (simp_all add: bob_env_def login_claims_def)
  then show ?thesis
    by (simp add: do_accept_def auth_user_def add_session_def run_defs bob_session_def)
qed

lemma bob_connected: "ws_world_reach bob_env (bob_world ((new_object bob_session)\<lparr>wo_accepting := 1\<rparr>) [])"
proof (rule ws_world_reach.step [OF ws_world_reach.start])
  show "ws_world_step bob_env (ws_world_start demo_sys 1) (bob_world ((new_object bob_session)\<lparr>wo_accepting := 1\<rparr>) [])"
    using ws_session_step.connect [where E = bob_env and w = "ws_world_start demo_sys 1" and h = 0
        and authorization = "Some ''token''" and ws = bob_session and es = "[Async_accept]"
        and s' = "demo_sys\<lparr>sys_sessions := [7 \<mapsto> 0], sys_alive := (\<lambda>_. False)(0 := True)\<rparr>", THEN ws_world_step.session]
    by (simp add: bob_world_def ws_world_start_def bob_accept new_object_def logged_in_def owner_def bob_session_def)
qed (simp add: ws_world_start_def)

lemma bob_online: "online (ww_sys (bob_world x held)) 7 = Some 0"
  by (simp add: online_def)

lemma bob_purge: "purge (ww_sys (bob_world x held)) [7] = ww_sys (bob_world x held)"
  by (simp add: purge_def bob_world_def demo_sys_def online_def fun_eq_iff)

lemma bob_messaged: "ws_world_reach bob_env (bob_world bob_object [])"
proof -
  let ?x = "(new_object bob_session)\<lparr>wo_accepting := 1\<rparr>"
  let ?y = "?x\<lparr>wo_posted := [''hi''], wo_inbox := [(7, ''hi'')]\<rparr>"
  let ?z = "?y\<lparr>wo_session := bob_session\<lparr>wss_queue := [''hi'']\<rparr>, wo_posted := [], wo_writing := [''hi'']\<rparr>"
  let ?step = "ws_world_step bob_env"
  note go = ws_world_reach.step [where E = bob_env]
  have l: "lock_all [7] (ww_sys (bob_world ?x [])) = (Ret [0], ww_sys (bob_world ?x []))"
    unfolding lock_all_run bob_purge by (simp add: handles_def bob_online map_filter_simps)
  have a: "[(0, 7, ''hi'')] = addressed (ww_sys (bob_world ?x [])) [7] ''hi''"
    by (simp add: addressed_def bob_online map_filter_simps)
  have s: "?step (bob_world ?x []) (bob_world ?x [(0, 7, ''hi'')])"
    using ws_world_step.send [OF l _ a, of bob_env] by simp
  have p: "?step (bob_world ?x [(0, 7, ''hi'')]) (bob_world ?y [])"
    using ws_world_step.post [of "bob_world ?x [(0, 7, ''hi'')]" "[]" 0 7 "''hi''" "[]" ?x bob_env]
    by (simp add: new_object_def ws_post_def)
  have t: "?step (bob_world ?y []) (bob_world ?z [])"
    using ws_session_step.sent [of "bob_world ?y []" 0 ?y "''hi''" "[]" _ _ bob_env, THEN ws_world_step.session]
    by (simp add: new_object_def ws_on_send_def bob_session_def new_ws_session_def)
  have d: "?step (bob_world ?z []) (bob_world bob_object [])"
    using ws_session_step.written [of "bob_world ?z []" 0 ?z "''hi''" "[]" Ok _ _ bob_env, THEN ws_world_step.session]
    by (simp add: new_object_def ws_on_write_def bob_session_def new_ws_session_def bob_object_def)
  show ?thesis
    by (rule go [OF go [OF go [OF go [OF bob_connected _ s] _ p] _ t] _ d]) simp_all
qed

section \<open>Properties\<close>

text \<open>
  C13: whatever the interleaving of upgrades, reads, senders, writes and destructors, a session that
  exists has the messages for it written, queued or still posted, in the order the senders posted
  them and each once; one write is outstanding, and exactly while something is queued, unless a write has
  failed; an accept or a read is outstanding only for an authenticated session, one at a time.
\<close>

theorem ws_sessions_write_in_order:
  assumes "ws_world_reach E w" "ww_objs w h = Some x"
  shows "map snd (wo_inbox x) = wo_written x @ wss_queue (wo_session x) @ wo_posted x \<and>
    wo_writing x = (if wo_failed x then [] else take 1 (wss_queue (wo_session x))) \<and>
    wo_accepting x + wo_reads x \<le> (if wss_claims (wo_session x) = None then 0 else 1)"
  using object_reached [OF assms] by (auto simp: object_ok_def)

lemma ws_sessions_write_in_order_witness:
  "\<exists>w x. ws_world_reach bob_env w \<and> ww_objs w 0 = Some x \<and> wo_written x = [''hi''] \<and>
     map snd (wo_inbox x) = [''hi''] @ wss_queue (wo_session x) @ wo_posted x"
  using ws_sessions_write_in_order [OF bob_messaged, where h = 0 and x = bob_object] bob_messaged
  by (intro exI [of _ "bob_world bob_object []"] exI [of _ bob_object]) (simp add: bob_object_def)

text \<open>
  C12: every message posted to a session was addressed to the user the session authenticated as, also when
  the user logs in again or logs out between the lookup and the post.
\<close>

theorem message_reaches_only_addressee:
  assumes "ws_world_reach E w" "ww_objs w h = Some x" "(u, msg) \<in> set (wo_inbox x)"
  shows "\<exists>c. wss_claims (wo_session x) = Some c \<and> uc_id c = u"
  using object_reached [OF assms(1,2)] assms(3) by (auto simp: object_ok_def user_of_def)

lemma message_reaches_only_addressee_witness:
  "\<exists>w x c. ws_world_reach bob_env w \<and> ww_objs w 0 = Some x \<and> wo_inbox x = [(7, ''hi'')] \<and>
     wss_claims (wo_session x) = Some c \<and> uc_id c = 7"
proof -
  have "(7, ''hi'') \<in> set (wo_inbox bob_object)" by (simp add: bob_object_def)
  from message_reaches_only_addressee [OF bob_messaged _ this, where h = 0]
  obtain c where "wss_claims (wo_session bob_object) = Some c \<and> uc_id c = 7" by auto
  then show ?thesis
    using bob_messaged by (intro exI [of _ "bob_world bob_object []"] exI [of _ bob_object] exI [of _ c])
      (simp add: bob_object_def)
qed

text \<open>
  C21: as long as nobody has logged in while a session of his existed, the table is exact: a message for a
  user goes to the one living session authenticated for him, and is dropped only when there is none.
\<close>

theorem presence_exact:
  assumes "ws_world_reach E w" "\<not> ww_relogin w"
  shows "online (ww_sys w) u = Some h \<longleftrightarrow> owner w h = Some u \<and> sys_alive (ww_sys w) h"
proof -
  have "world_ok w" using assms(1) by (rule world_ok_reach)
  then have table: "table_ok w" and pres: "presence_ok w" by (simp_all add: world_ok_def)
  have "sys_sessions (ww_sys w) u = Some h \<Longrightarrow> owner w h = Some u" using table by (simp add: table_ok_def)
  moreover have "owner w h = Some u \<Longrightarrow> sys_alive (ww_sys w) h \<Longrightarrow> sys_sessions (ww_sys w) u = Some h"
    using pres assms(2) by (simp add: presence_ok_def)
  moreover have "online (ww_sys w) u = Some h \<longleftrightarrow> sys_sessions (ww_sys w) u = Some h \<and> sys_alive (ww_sys w) h"
    by (auto simp: online_def split: option.splits)
  ultimately show ?thesis by blast
qed

lemma presence_exact_witness:
  "\<exists>w. ws_world_reach bob_env w \<and> online (ww_sys w) 7 = Some 0 \<and> owner w 0 = Some 7"
  using presence_exact [OF bob_messaged, where u = 7 and h = 0] bob_messaged bob_online
  by (intro exI [of _ "bob_world bob_object []"]) simp

text \<open>
  C39: undefined behaviour comes from refused upgrades, and every refused upgrade ends in it: the destructor
  of a session that was never authenticated reads the id it never set. Two steps suffice, as nothing
  else refers to such an object.
\<close>

theorem refused_upgrade_undefined:
  assumes "ws_world_reach E w"
  shows "(ww_undef w \<longrightarrow> ww_rejected w) \<and>
    (\<forall>h x. ww_objs w h = Some x \<longrightarrow> wss_claims (wo_session x) = None \<longrightarrow>
       (\<exists>w1 w2. ws_world_step E w w1 \<and> ws_world_step E w1 w2 \<and> ww_undef w2))"
proof (intro conjI allI impI)
  have ok: "world_ok w" using assms by (rule world_ok_reach)
  then show "ww_undef w \<Longrightarrow> ww_rejected w" by (simp add: world_ok_def defined_ok_def)
  fix h x assume x: "ww_objs w h = Some x" "wss_claims (wo_session x) = None"
  let ?w = "w\<lparr>ww_sys := (ww_sys w)\<lparr>sys_alive := (sys_alive (ww_sys w))(h := False)\<rparr>\<rparr>"
  have "object_ok x" using ok x(1) by (simp add: world_ok_def objects_ok_def)
  then have "idle_object x" using x(2) by (rule object_unauthenticated)
  moreover have "owner w h = None" using x by (simp add: owner_def user_of_def)
  then have "h \<notin> fst ` set (ww_held w)" using ok by (auto simp: world_ok_def table_ok_def)
  ultimately have "ws_world_step E w ?w" using x(1) by (intro ws_world_step.session ws_session_step.expire)
  moreover have "ws_world_step E ?w (?w\<lparr>ww_undef := True\<rparr>)"
    by (rule ws_session_step.destroy_undef [where h = h and x = x and s' = "ww_sys ?w", THEN ws_world_step.session]) (use x in \<open>simp_all add: ws_dtor_def undef_def\<close>)
  ultimately show "\<exists>w1 w2. ws_world_step E w w1 \<and> ws_world_step E w1 w2 \<and> ww_undef w2"
    by (intro exI [of _ ?w] exI [of _ "?w\<lparr>ww_undef := True\<rparr>"]) simp
qed

lemma refused_upgrade_undefined_witness:
  "\<exists>w w1 w2. ws_world_reach bob_env w \<and> \<not> ww_undef w \<and>
     ws_world_step bob_env w w1 \<and> ws_world_step bob_env w1 w2 \<and> ww_undef w2"
proof -
  obtain w where w: "ws_world_step bob_env (ws_world_start demo_sys 1) w"
    "ww_objs w 0 = Some (new_object new_ws_session)" "\<not> ww_undef w"
    using ws_session_step.connect [where E = bob_env and w = "ws_world_start demo_sys 1" and h = 0
        and authorization = None and ws = new_ws_session and es = "[]"
        and s' = "(ww_sys (ws_world_start demo_sys 1))\<lparr>sys_alive := (\<lambda>_. False)(0 := True)\<rparr>", THEN ws_world_step.session]
    by (force simp: ws_world_start_def do_accept_def run_defs)
  have reach: "ws_world_reach bob_env w"
    by (rule ws_world_reach.step [OF ws_world_reach.start _ w(1)]) (simp add: ws_world_start_def)
  have "wss_claims (wo_session (new_object new_ws_session)) = None" by (simp add: new_object_def new_ws_session_def)
  with refused_upgrade_undefined [OF reach] w(2,3) reach show ?thesis by blast
qed

end
