(* ===== verification/ChatWorld.thy ===== *)
theory ChatWorld
  imports SysMoves WsWorld HandlerSafety
begin

text \<open>
  The chat service as a whole: the WebSocket sessions of \<open>WsWorld\<close>, the worker pool their messages
  go to, and workers that run \<open>handle_message\<close> on the shared state, with requests in between.
  A run of a handler is one step here; every such step is a sequence of steps of \<open>WsWorld\<close>, so what
  is proved there for any interleaving holds for the program. The history keeps every handled
  message with what its run did.
\<close>

section \<open>State\<close>

text \<open>
  \<open>ch_runs\<close>: the messages handled, each with the claims it was handled for and the history of its
  run. \<open>ch_seen\<close>: the claims sessions have been authenticated with.
\<close>

record 'w chat =
  ch_world :: "'w ws_world"
  ch_runs :: "(user_claims \<times> string \<times> event list) list"
  ch_seen :: "user_claims set"

definition chat_start :: "'w sys \<Rightarrow> nat \<Rightarrow> 'w chat" where
  "chat_start s n = \<lparr>ch_world = ws_world_start s n, ch_runs = [], ch_seen = {}\<rparr>"

definition claims_of :: "'w ws_world \<Rightarrow> user_claims set" where
  "claims_of w = {c. \<exists>h x. ww_objs w h = Some x \<and> wss_claims (wo_session x) = Some c}"

lemma claims_of_update [simp]:
  "claims_of (w\<lparr>ww_sys := s\<rparr>) = claims_of w" "claims_of (w\<lparr>ww_pool := p\<rparr>) = claims_of w"
  by (simp_all add: claims_of_def)

text \<open>The messages of a run reach the strands of their sessions.\<close>

fun deliver_posts :: "(nat \<times> string) list \<Rightarrow> 'w ws_world \<Rightarrow> 'w ws_world" where
  "deliver_posts [] w = w"
| "deliver_posts ((h, m) # ps) w = deliver_posts ps
     (case ww_objs w h of
        Some x \<Rightarrow> (case owner w h of Some u \<Rightarrow> put_object h (ws_post u m x) w | None \<Rightarrow> w)
      | None \<Rightarrow> w)"

definition run_log :: "'w sys \<Rightarrow> 'w sys \<Rightarrow> event list" where
  "run_log s t = drop (length (db_log s)) (db_log t)"

definition after_run :: "'w sys \<Rightarrow> 'w ws_world \<Rightarrow> 'w ws_world" where
  "after_run t w = (deliver_posts (posts (run_log (ww_sys w) t)) w)\<lparr>ww_sys := t\<rparr>"

section \<open>Steps\<close>

text \<open>
  \<open>turn\<close>: notifications and workers between tasks. \<open>message\<close> and \<open>message_escapes\<close>: worker \<open>i\<close> runs its
  task to the end, the process ends when an exception leaves it or a destructor; a run that
  blocks for ever is no step. \<open>request\<close>: the handler of an HTTP request.
\<close>

inductive chat_step :: "'w env \<Rightarrow> 'w chat \<Rightarrow> 'w chat \<Rightarrow> bool" for E where
  sessions: "ws_session_step E (ch_world k) w \<Longrightarrow>
    chat_step E k (k\<lparr>ch_world := w, ch_seen := ch_seen k \<union> claims_of w\<rparr>)"
| turn: "pool_step throws (ww_pool (ch_world k)) p \<Longrightarrow> tp_accepted p = tp_accepted (ww_pool (ch_world k)) \<Longrightarrow>
    tp_done p = tp_done (ww_pool (ch_world k)) \<Longrightarrow> \<not> tp_dead p \<Longrightarrow>
    chat_step E k (k\<lparr>ch_world := (ch_world k)\<lparr>ww_pool := p\<rparr>\<rparr>)"
| message: "w = ch_world k \<Longrightarrow> i < length (tp_workers (ww_pool w)) \<Longrightarrow> tp_workers (ww_pool w) ! i = Running (msg, c) \<Longrightarrow>
    handle_message E msg c (ww_sys w) = (Ret (), t) \<Longrightarrow> \<not> tp_dead (ww_pool w) \<Longrightarrow>
    chat_step E k (k\<lparr>ch_world := (after_run t w)\<lparr>ww_pool := (ww_pool w)\<lparr>tp_workers := (tp_workers (ww_pool w))[i := Checking],
        tp_done := tp_done (ww_pool w) @ [(msg, c)]\<rparr>\<rparr>,
      ch_runs := ch_runs k @ [(c, msg, run_log (ww_sys w) t)]\<rparr>)"
| message_escapes: "w = ch_world k \<Longrightarrow> i < length (tp_workers (ww_pool w)) \<Longrightarrow> tp_workers (ww_pool w) ! i = Running (msg, c) \<Longrightarrow>
    handle_message E msg c (ww_sys w) = (r, t) \<Longrightarrow> r = Throw e \<or> r = Terminate \<Longrightarrow> \<not> tp_dead (ww_pool w) \<Longrightarrow>
    chat_step E k (k\<lparr>ch_world := (after_run t w)\<lparr>ww_pool := (ww_pool w)\<lparr>tp_dead := True\<rparr>\<rparr>,
      ch_runs := ch_runs k @ [(c, msg, run_log (ww_sys w) t)]\<rparr>)"
| request: "w = ch_world k \<Longrightarrow> handle_request E req (ww_sys w) = (r, t) \<Longrightarrow>
    chat_step E k (k\<lparr>ch_world := w\<lparr>ww_sys := t\<rparr>\<rparr>)"

inductive chat_reach :: "'w env \<Rightarrow> 'w chat \<Rightarrow> bool" for E where
  start: "chat_reach E (chat_start s n)"
| step: "chat_reach E k \<Longrightarrow> \<not> ww_undef (ch_world k) \<Longrightarrow> \<not> tp_dead (ww_pool (ch_world k)) \<Longrightarrow> chat_step E k k' \<Longrightarrow>
    chat_reach E k'"

section \<open>A run is a sequence of steps of the sessions' world\<close>

lemma owner_sys [simp]: "owner (w\<lparr>ww_sys := s\<rparr>) = owner w" "owner (w\<lparr>ww_held := hs\<rparr>) = owner w"
  by (rule world_ok_frame)+

lemma put_object_update [simp]:
  "put_object h x (w\<lparr>ww_sys := s\<rparr>) = (put_object h x w)\<lparr>ww_sys := s\<rparr>"
  "put_object h x (w\<lparr>ww_held := hs\<rparr>) = (put_object h x w)\<lparr>ww_held := hs\<rparr>"
  by (simp_all add: put_object_def)

lemma deliver_posts_update:
  "deliver_posts ps (w\<lparr>ww_sys := s\<rparr>) = (deliver_posts ps w)\<lparr>ww_sys := s\<rparr>"
  "deliver_posts ps (w\<lparr>ww_held := hs\<rparr>) = (deliver_posts ps w)\<lparr>ww_held := hs\<rparr>"
  by (induction ps w rule: deliver_posts.induct) (auto split: option.split)

lemma deliver_posts_append: "deliver_posts (ps @ qs) w = deliver_posts qs (deliver_posts ps w)"
  by (induction ps w rule: deliver_posts.induct) auto

lemma put_object_same [simp]:
  "ww_sys (put_object h x w) = ww_sys w" "ww_held (put_object h x w) = ww_held w" "ww_pool (put_object h x w) = ww_pool w"
  "ww_next (put_object h x w) = ww_next w" "ww_undef (put_object h x w) = ww_undef w"
  by (simp_all add: put_object_def)

lemma deliver_posts_same [simp]:
  "ww_sys (deliver_posts ps w) = ww_sys w" "ww_held (deliver_posts ps w) = ww_held w"
  "ww_pool (deliver_posts ps w) = ww_pool w" "ww_next (deliver_posts ps w) = ww_next w"
  "ww_undef (deliver_posts ps w) = ww_undef w"
  by (induction ps w rule: deliver_posts.induct) (auto split: option.split)

text \<open>The posts of one sender, one after the other.\<close>

lemma post_steps:
  assumes "\<And>h u m. (h, u, m) \<in> set es \<Longrightarrow> owner w h = Some u"
  shows "(ws_world_step E)\<^sup>*\<^sup>* (w\<lparr>ww_held := es\<rparr>)
    ((deliver_posts (map (\<lambda>(h, u, m). (h, m)) es) w)\<lparr>ww_held := []\<rparr>)"
  using assms
proof (induction es arbitrary: w)
  case (Cons e es)
  obtain h u m where e: "e = (h, u, m)" by (cases e)
  with Cons.prems obtain x where x: "ww_objs w h = Some x" "user_of x = Some u" "owner w h = Some u"
    by (force simp: owner_def bind_eq_Some_conv)
  let ?w = "put_object h (ws_post u m x) w"
  have "ws_world_step E (w\<lparr>ww_held := e # es\<rparr>) (?w\<lparr>ww_held := es\<rparr>)"
    using ws_world_step.post [of "w\<lparr>ww_held := e # es\<rparr>" "[]" h u m es x E] x(1) e by simp
  moreover have "owner ?w = owner w" by (rule put_object_owner [OF x(1)]) (simp add: user_of_def ws_post_def)
  then have "(ws_world_step E)\<^sup>*\<^sup>* (?w\<lparr>ww_held := es\<rparr>)
      ((deliver_posts (map (\<lambda>(h, u, m). (h, m)) es) ?w)\<lparr>ww_held := []\<rparr>)"
    using Cons.prems by (intro Cons.IH) auto
  ultimately show ?case using e x by (simp add: converse_rtranclp_into_rtranclp)
qed simp

lemma world_ok_steps: "(ws_world_step E)\<^sup>*\<^sup>* w w' \<Longrightarrow> world_ok w \<Longrightarrow> world_ok w'"
  by (induction rule: rtranclp_induct) (auto intro: world_ok_step)

text \<open>One locked lookup with its posts.\<close>

lemma send_steps:
  assumes "world_ok w" "ww_held w = []"
  shows "(ws_world_step E)\<^sup>*\<^sup>* w
    ((deliver_posts (map (\<lambda>h. (h, msg)) (handles (ww_sys w) us)) w)\<lparr>ww_sys := sys_send us msg (ww_sys w)\<rparr>)"
proof -
  let ?s = "ww_sys w" and ?es = "addressed (ww_sys w) us msg"
  let ?w1 = "w\<lparr>ww_sys := purge ?s us, ww_held := ?es\<rparr>" and ?w2 = "w\<lparr>ww_sys := sys_send us msg ?s\<rparr>"
  have send: "ws_world_step E w (w\<lparr>ww_sys := purge ?s us, ww_held := ww_held w @ ?es\<rparr>)"
    by (rule ws_world_step.send [OF lock_all_run addressed_handles [symmetric] refl])
  have "ws_world_step E w ?w1"
    using send assms(2) by simp
  moreover have "ws_world_step E ?w1 (?w2\<lparr>ww_held := ?es\<rparr>)"
  proof -
    have "ws_world_step E ?w1 (?w1\<lparr>ww_sys := sys_send us msg ?s\<rparr>)"
      by (rule ws_world_step.other) (simp_all add: sys_send_def)
    also have "?w1\<lparr>ww_sys := sys_send us msg ?s\<rparr> = ?w2\<lparr>ww_held := ?es\<rparr>" by (cases w) simp
    finally show ?thesis .
  qed
  moreover have "owner ?w2 h = Some u" if "(h, u, m) \<in> set ?es" for h u m
  proof -
    have "online ?s u = Some h" using that by (simp add: addressed_iff)
    then have "sys_sessions ?s u = Some h" by (simp add: online_def split: option.splits if_splits)
    then show ?thesis using assms(1) by (simp add: world_ok_def table_ok_def)
  qed
  then have "(ws_world_step E)\<^sup>*\<^sup>* (?w2\<lparr>ww_held := ?es\<rparr>)
      ((deliver_posts (map (\<lambda>(h, u, m). (h, m)) ?es) ?w2)\<lparr>ww_held := []\<rparr>)" by (rule post_steps)
  moreover have "map (\<lambda>(h, u, m). (h, m)) ?es = map (\<lambda>h. (h, msg)) (handles ?s us)"
    by (auto simp: addressed_handles [of ?s us msg, symmetric] addressed_iff intro!: map_cong)
  moreover have "(deliver_posts ps ?w2)\<lparr>ww_held := []\<rparr> = (deliver_posts ps w)\<lparr>ww_sys := sys_send us msg ?s\<rparr>" for ps
    unfolding deliver_posts_update using assms(2) deliver_posts_same(2) [of ps w]
    by (cases "deliver_posts ps w") simp
  ultimately show ?thesis by (simp add: converse_rtranclp_into_rtranclp)
qed

lemma run_log_append: "db_log t = db_log s @ tr \<Longrightarrow> run_log s t = tr"
  by (simp add: run_log_def)

text \<open>A run of a handler, by its moves.\<close>

lemma run_steps:
  assumes "sys_moves s t" "s = ww_sys w" "world_ok w" "ww_held w = []"
  shows "(ws_world_step E)\<^sup>*\<^sup>* w (after_run t w)"
  using assms
proof (induction rule: sys_moves.induct)
  case (stay s)
  then show ?case by (simp add: after_run_def run_log_def)
next
  case (quiet_move s t u)
  then obtain tr es where l: "db_log t = db_log s @ tr" "db_log u = db_log t @ es" "posts es = []"
    using sys_moves_log by (fastforce simp: sys_quiet_def)
  have "ws_world_step E (after_run t w) ((after_run t w)\<lparr>ww_sys := u\<rparr>)"
    using quiet_move.hyps(2) by (intro ws_world_step.other) (simp_all add: after_run_def sys_quiet_def)
  moreover have "(after_run t w)\<lparr>ww_sys := u\<rparr> = after_run u w"
    using l quiet_move.prems(1) by (simp add: after_run_def run_log_append)
  ultimately show ?case using quiet_move.IH quiet_move.prems by (simp add: rtranclp.rtrancl_into_rtrancl)
next
  case (send_move s t us msg)
  then obtain tr where l: "db_log t = db_log s @ tr" using sys_moves_log by blast
  note IH = send_move.IH [OF send_move.prems]
  have "world_ok (after_run t w)" using world_ok_steps [OF IH send_move.prems(2)] .
  from send_steps [OF this, where E = E and msg = msg and us = us] send_move.prems(3)
  have "(ws_world_step E)\<^sup>*\<^sup>* (after_run t w)
    ((deliver_posts (map (\<lambda>h. (h, msg)) (handles t us)) (after_run t w))\<lparr>ww_sys := sys_send us msg t\<rparr>)"
    by (simp add: after_run_def)
  moreover have "(deliver_posts (map (\<lambda>h. (h, msg)) (handles t us)) (after_run t w))\<lparr>ww_sys := sys_send us msg t\<rparr> =
      after_run (sys_send us msg t) w"
    using l send_move.prems(1) run_log_append [of "sys_send us msg t" s "tr @ map (\<lambda>h. Post h msg) (handles t us)"]
    by (simp add: after_run_def run_log_append deliver_posts_append deliver_posts_update sys_send_def)
  ultimately show ?case using IH by simp
qed

section \<open>The service refines the sessions' world\<close>

lemma undef_stays: "ws_world_step E w w' \<Longrightarrow> ww_undef w \<Longrightarrow> ww_undef w'"
  by (auto elim!: ws_world_step.cases ws_session_step.cases)

lemma reach_steps:
  assumes "(ws_world_step E)\<^sup>*\<^sup>* w w'" "ws_world_reach E w" "\<not> ww_undef w'"
  shows "ws_world_reach E w'"
  using assms
proof (induction rule: rtranclp_induct)
  case (step u v)
  then have "\<not> ww_undef u" using undef_stays by blast
  with step show ?case by (blast intro: ws_world_reach.step)
qed simp

lemma after_run_same [simp]:
  "ww_sys (after_run t w) = t" "ww_held (after_run t w) = ww_held w" "ww_pool (after_run t w) = ww_pool w"
  "ww_next (after_run t w) = ww_next w" "ww_undef (after_run t w) = ww_undef w"
  by (simp_all add: after_run_def)

lemma session_step_held: "ws_session_step E w w' \<Longrightarrow> ww_held w' = ww_held w"
  by (induction rule: ws_session_step.induct) simp_all

lemma chat_step_held: "chat_step E k k' \<Longrightarrow> ww_held (ch_world k) = [] \<Longrightarrow> ww_held (ch_world k') = []"
  by (induction rule: chat_step.induct) (simp_all add: session_step_held)

text \<open>Each step of the service is a sequence of steps of the sessions' world.\<close>

lemma chat_step_refines:
  assumes "chat_step E k k'" "world_ok (ch_world k)" "ww_held (ch_world k) = []"
  shows "(ws_world_step E)\<^sup>*\<^sup>* (ch_world k) (ch_world k')"
  using assms
proof (induction rule: chat_step.induct)
  case (sessions k w)
  then show ?case by (auto intro: ws_world_step.session)
next
  case (turn throws k p)
  then show ?case by (auto intro: ws_world_step.worker)
next
  case (message w k i msg c t)
  let ?p = "(ww_pool w)\<lparr>tp_workers := (tp_workers (ww_pool w))[i := Checking], tp_done := tp_done (ww_pool w) @ [(msg, c)]\<rparr>"
  have "sys_moves (ww_sys w) t" using keepsD [OF moving_handle_message message.hyps(4)] .
  then have "(ws_world_step E)\<^sup>*\<^sup>* w (after_run t w)" using message by (intro run_steps) simp_all
  moreover have "pool_step (\<lambda>_. False) (ww_pool w) ?p" using message.hyps by (intro pool_step.work pool_work.finish) simp_all
  then have "ws_world_step E (after_run t w) ((after_run t w)\<lparr>ww_pool := ?p\<rparr>)"
    by (intro ws_world_step.worker) simp
  ultimately show ?case using message.hyps(1) by simp
next
  case (message_escapes w k i msg c r t e)
  let ?p = "(ww_pool w)\<lparr>tp_dead := True\<rparr>"
  have "sys_moves (ww_sys w) t" using keepsD [OF moving_handle_message message_escapes.hyps(4)] .
  then have "(ws_world_step E)\<^sup>*\<^sup>* w (after_run t w)" using message_escapes by (intro run_steps) simp_all
  moreover have "pool_step (\<lambda>_. True) (ww_pool w) ?p"
    using message_escapes.hyps by (intro pool_step.work pool_work.escape [where i = i]) simp_all
  then have "ws_world_step E (after_run t w) ((after_run t w)\<lparr>ww_pool := ?p\<rparr>)"
    by (intro ws_world_step.worker) simp
  ultimately show ?case using message_escapes.hyps(1) by simp
next
  case (request w k req r t)
  have "sys_quiet (ww_sys w) t" using keepsD [OF quiet_moves.handle_request_rule request.hyps(2)] .
  then have "ws_world_step E w (w\<lparr>ww_sys := t\<rparr>)" by (intro ws_world_step.other) (simp_all add: sys_quiet_def)
  with request.hyps(1) show ?case by auto
qed

lemma chat_reach_held: "chat_reach E k \<Longrightarrow> ww_held (ch_world k) = []"
  by (induction rule: chat_reach.induct) (auto simp: chat_start_def ws_world_start_def dest: chat_step_held)

lemma chat_reach_world:
  "chat_reach E k \<Longrightarrow> world_ok (ch_world k) \<and> (\<not> ww_undef (ch_world k) \<longrightarrow> ws_world_reach E (ch_world k))"
proof (induction rule: chat_reach.induct)
  case (start s n)
  show ?case by (simp add: chat_start_def world_ok_start ws_world_reach.start)
next
  case (step k k')
  then have "(ws_world_step E)\<^sup>*\<^sup>* (ch_world k) (ch_world k')"
    by (intro chat_step_refines) (simp_all add: chat_reach_held)
  with step show ?case by (blast intro: reach_steps world_ok_steps)
qed

section \<open>What connections carry is what handlers posted\<close>

definition msgs_to :: "nat \<Rightarrow> (nat \<times> string) list \<Rightarrow> string list" where
  "msgs_to h ps = map snd (filter (\<lambda>p. fst p = h) ps)"

definition all_posts :: "'w chat \<Rightarrow> (nat \<times> string) list" where
  "all_posts k = concat (map (\<lambda>(c, msg, tr). posts tr) (ch_runs k))"

lemma msgs_to_simps [simp]:
  "msgs_to h [] = []" "msgs_to h (p # ps) = (if fst p = h then snd p # msgs_to h ps else msgs_to h ps)"
  "msgs_to h (ps @ qs) = msgs_to h ps @ msgs_to h qs"
  by (simp_all add: msgs_to_def)

lemma msgs_to_none: "\<forall>p \<in> set ps. fst p \<noteq> h \<Longrightarrow> msgs_to h ps = []"
  by (induction ps) auto

definition carried :: "ws_object \<Rightarrow> string list" where
  "carried x = map snd (wo_inbox x)"

lemma carried_post [simp]: "carried (ws_post u m x) = carried x @ [m]"
  by (simp add: carried_def ws_post_def)

text \<open>Posts to objects that exist and have a user.\<close>

lemma deliver_posts_carried:
  assumes "\<forall>p \<in> set ps. owner w (fst p) \<noteq> None" "ww_objs (deliver_posts ps w) h = Some y"
  shows "\<exists>x. ww_objs w h = Some x \<and> carried y = carried x @ msgs_to h ps \<and> wss_claims (wo_session y) = wss_claims (wo_session x)"
  using assms
proof (induction ps w arbitrary: y rule: deliver_posts.induct)
  case (2 g m ps w)
  from 2(2) obtain x u where x: "ww_objs w g = Some x" "owner w g = Some u"
    by (auto simp: owner_def bind_eq_Some_conv)
  let ?w = "put_object g (ws_post u m x) w"
  have own: "owner ?w = owner w" by (rule put_object_owner [OF x(1)]) (simp add: user_of_def ws_post_def)
  have "\<exists>z. ww_objs ?w h = Some z \<and> carried y = carried z @ msgs_to h ps \<and> wss_claims (wo_session y) = wss_claims (wo_session z)"
    using 2(1) [of y] 2(2,3) x own by simp
  then obtain z where "ww_objs ?w h = Some z" "carried y = carried z @ msgs_to h ps"
    "wss_claims (wo_session y) = wss_claims (wo_session z)" by blast
  then show ?case using x by (cases "h = g") (auto simp: put_object_def ws_post_def carried_def)
qed simp

text \<open>Sessions hand tasks over and come and go; what was posted to them stays.\<close>

lemma ws_start_frame [simp]:
  "wo_inbox (fold ws_start es x) = wo_inbox x" "wo_session (fold ws_start es x) = wo_session x"
proof -
  have "wo_inbox (fold ws_start es x) = wo_inbox x \<and> wo_session (fold ws_start es x) = wo_session x"
  proof (induction es arbitrary: x)
    case (Cons e es)
    then show ?case by (cases e) simp_all
  qed simp
  then show "wo_inbox (fold ws_start es x) = wo_inbox x" "wo_session (fold ws_start es x) = wo_session x" by auto
qed

lemma session_step_carried:
  assumes "ws_session_step E w w'" "ww_objs w' h = Some y"
  shows "(\<exists>x. ww_objs w h = Some x \<and> carried y = carried x) \<or> h = ww_next w \<and> carried y = []"
  using assms
  by (induction rule: ws_session_step.induct)
    (auto simp: carried_def put_object_def new_object_def split: if_splits)

lemma session_step_next: "ws_session_step E w w' \<Longrightarrow> ww_next w \<le> ww_next w'"
  by (induction rule: ws_session_step.induct) simp_all

lemma session_step_pool:
  assumes "ws_session_step E w w'"
  shows "tp_workers (ww_pool w') = tp_workers (ww_pool w) \<and>
    (\<forall>t \<in> set (tp_tasks (ww_pool w')). t \<in> set (tp_tasks (ww_pool w)) \<or> snd t \<in> claims_of w)"
  using assms
proof (induction rule: ws_session_step.induct)
  case (received w h x ec msg ws es p)
  then show ?case
    by (auto simp: ws_on_read_def ret_def undef_def andthen_def add_task_def ws_arrive_def claims_of_def split: if_splits option.splits)
qed simp_all

definition tasks_in :: "'t pool \<Rightarrow> 't set" where
  "tasks_in p = set (tp_tasks p) \<union> {t. Running t \<in> set (tp_workers p)}"

lemma pool_turn_tasks:
  assumes "pool_step throws p p'" "tp_accepted p' = tp_accepted p"
  shows "tasks_in p' \<subseteq> tasks_in p"
proof -
  have upd: "Running t \<in> set ws" if "Running t \<in> set (ws[i := w])" "w \<noteq> Running t" for t i w and ws :: "'t worker list"
    using that by (metis set_update_subsetI insertE set_update_subset_insert subsetD)
  have wake: "Running t \<in> set ws" if "Running t \<in> wake ` set ws" for t and ws :: "'t worker list"
    using that by (auto simp: wake_def split: worker.splits)
  from assms(1) show ?thesis
  proof (cases rule: pool_step.cases)
    case work
    then show ?thesis
    proof (cases rule: pool_work.cases)
      case (check i)
      have "t \<in> tasks_in p" if "t \<in> tasks_in (worker_check i p)" for t
        using that by (auto simp: worker_check_def tasks_in_def dest: upd list.set_sel(2)
          dest!: set_update_subset_insert [THEN subsetD] split: if_splits)
      with check show ?thesis by blast
    qed (auto simp: tasks_in_def dest!: upd wake)
  qed (use assms(2) in \<open>auto simp: tasks_in_def add_task_def pool_stop_def dest!: upd split: if_splits\<close>)
qed

definition chat_ok :: "'w env \<Rightarrow> 'w chat \<Rightarrow> bool" where
  "chat_ok E k \<longleftrightarrow>
     (\<forall>h x. ww_objs (ch_world k) h = Some x \<longrightarrow> carried x = msgs_to h (all_posts k)) \<and>
     (\<forall>p \<in> set (all_posts k). fst p < ww_next (ch_world k)) \<and>
     claims_of (ch_world k) \<subseteq> ch_seen k \<and> snd ` tasks_in (ww_pool (ch_world k)) \<subseteq> ch_seen k \<and>
     (\<forall>(c, msg, tr) \<in> set (ch_runs k). c \<in> ch_seen k \<and> message_order E (uc_id c) tr)"

lemma chat_ok_start: "chat_ok E (chat_start s n)"
  by (auto simp: chat_ok_def chat_start_def ws_world_start_def all_posts_def claims_of_def tasks_in_def new_pool_def)

lemma chat_ok_sessions:
  assumes "ws_session_step E (ch_world k) w" "chat_ok E k"
  shows "chat_ok E (k\<lparr>ch_world := w, ch_seen := ch_seen k \<union> claims_of w\<rparr>)" (is "chat_ok E ?k")
proof -
  have posts: "all_posts ?k = all_posts k" by (simp add: all_posts_def)
  have "carried y = msgs_to h (all_posts k)" if "ww_objs w h = Some y" for h y
  proof (cases "\<exists>x. ww_objs (ch_world k) h = Some x \<and> carried y = carried x")
    case True
    with assms(2) show ?thesis by (auto simp: chat_ok_def)
  next
    case False
    with session_step_carried [OF assms(1) that] have "h = ww_next (ch_world k)" "carried y = []" by auto
    moreover have "msgs_to (ww_next (ch_world k)) (all_posts k) = []"
      using assms(2) by (intro msgs_to_none) (auto simp: chat_ok_def)
    ultimately show ?thesis by simp
  qed
  moreover have "snd ` tasks_in (ww_pool w) \<subseteq> ch_seen k"
  proof (intro image_subsetI)
    fix t assume "t \<in> tasks_in (ww_pool w)"
    then have "t \<in> tasks_in (ww_pool (ch_world k)) \<or> snd t \<in> claims_of (ch_world k)"
      using session_step_pool [OF assms(1)] by (auto simp: tasks_in_def)
    with assms(2) show "snd t \<in> ch_seen k" by (auto simp: chat_ok_def)
  qed
  moreover have "fst p < ww_next w" if "p \<in> set (all_posts k)" for p
    using that assms(2) session_step_next [OF assms(1)] by (auto simp: chat_ok_def)
  ultimately show ?thesis using assms(2) unfolding chat_ok_def posts by auto
qed

lemma claims_of_deliver:
  assumes "\<forall>p \<in> set ps. owner w (fst p) \<noteq> None"
  shows "claims_of (deliver_posts ps w) \<subseteq> claims_of w"
  using deliver_posts_carried [OF assms] by (fastforce simp: claims_of_def)

text \<open>A run for claims that were seen.\<close>

lemma chat_ok_run:
  assumes "handle_message E msg c (ww_sys (ch_world k)) = (r, t)" "world_ok (ch_world k)" "chat_ok E k"
    "(msg, c) \<in> tasks_in (ww_pool (ch_world k))" "tasks_in p \<subseteq> tasks_in (ww_pool (ch_world k))"
  shows "chat_ok E (k\<lparr>ch_world := (after_run t (ch_world k))\<lparr>ww_pool := p\<rparr>,
    ch_runs := ch_runs k @ [(c, msg, run_log (ww_sys (ch_world k)) t)]\<rparr>)" (is "chat_ok E ?k")
proof -
  let ?w = "ch_world k"
  obtain tr where tr: "db_log t = db_log (ww_sys ?w) @ tr" "message_order E (uc_id c) tr"
    using emitsD [OF handle_message_emits assms(1)] by auto
  have log: "run_log (ww_sys ?w) t = tr" using tr(1) by (rule run_log_append)
  have "sys_moves (ww_sys ?w) t" using keepsD [OF moving_handle_message assms(1)] .
  then have "\<forall>h m. Post h m \<in> set tr \<longrightarrow> (\<exists>u. online (ww_sys ?w) u = Some h)"
    using sys_moves_log [of "ww_sys ?w" t] tr(1) by auto
  then have "\<exists>u. online (ww_sys ?w) u = Some (fst p)" if "p \<in> set (posts tr)" for p
    using that by (cases p) (auto simp: posts_iff)
  then have "\<exists>u. sys_sessions (ww_sys ?w) u = Some (fst p)" if "p \<in> set (posts tr)" for p
    using that by (fastforce simp: online_def split: option.splits if_splits)
  then have own: "\<forall>p \<in> set (posts tr). owner ?w (fst p) \<noteq> None"
    using assms(2) unfolding world_ok_def table_ok_def by fastforce
  have next_ok: "fst p < ww_next ?w" if "p \<in> set (posts tr)" for p
  proof -
    have "ww_objs ?w (fst p) \<noteq> None" using own that by (auto simp: owner_def bind_eq_Some_conv)
    with assms(2) show ?thesis by (simp add: world_ok_def table_ok_def)
  qed
  have posts: "all_posts ?k = all_posts k @ posts tr" by (simp add: all_posts_def log)
  have "carried y = msgs_to h (all_posts ?k)" if "ww_objs (ch_world ?k) h = Some y" for h y
    using deliver_posts_carried [OF own, of h y] that assms(3) posts
    by (auto simp: after_run_def log chat_ok_def)
  moreover have "claims_of (ch_world ?k) \<subseteq> ch_seen k"
    using subset_trans [OF claims_of_deliver [OF own]] assms(3) by (simp add: after_run_def log chat_ok_def)
  moreover have "snd ` tasks_in p \<subseteq> ch_seen k"
    by (rule subset_trans [OF image_mono [OF assms(5)]]) (use assms(3) in \<open>simp add: chat_ok_def\<close>)
  moreover have "c \<in> ch_seen k" using assms(3,4) by (force simp: chat_ok_def)
  ultimately show ?thesis
    using assms(3,5) tr(2) next_ok unfolding chat_ok_def posts by (auto simp: log)
qed

lemma chat_ok_step:
  assumes "chat_step E k k'" "world_ok (ch_world k)" "chat_ok E k"
  shows "chat_ok E k'"
  using assms
proof (induction rule: chat_step.induct)
  case (sessions k w)
  then show ?case by (simp add: chat_ok_sessions)
next
  case (turn throws k p)
  have "snd ` tasks_in p \<subseteq> snd ` tasks_in (ww_pool (ch_world k))" using pool_turn_tasks [OF turn.hyps(1,2)] by (rule image_mono)
  also have "\<dots> \<subseteq> ch_seen k" using turn.prems(2) by (simp add: chat_ok_def)
  finally show ?case using turn.prems(2) by (simp add: chat_ok_def all_posts_def)
next
  case (message w k i msg c t)
  then have "(msg, c) \<in> tasks_in (ww_pool w)" by (force simp: tasks_in_def in_set_conv_nth)
  moreover have "tasks_in ((ww_pool w)\<lparr>tp_workers := (tp_workers (ww_pool w))[i := Checking],
      tp_done := tp_done (ww_pool w) @ [(msg, c)]\<rparr>) \<subseteq> tasks_in (ww_pool w)"
    by (auto simp: tasks_in_def dest!: set_update_subset_insert [THEN subsetD])
  ultimately show ?case using message by (auto intro!: chat_ok_run)
next
  case (message_escapes w k i msg c r t e)
  then have "(msg, c) \<in> tasks_in (ww_pool w)" by (force simp: tasks_in_def in_set_conv_nth)
  moreover have "tasks_in ((ww_pool w)\<lparr>tp_dead := True\<rparr>) \<subseteq> tasks_in (ww_pool w)" by (auto simp: tasks_in_def)
  ultimately show ?case using message_escapes by (auto intro!: chat_ok_run)
next
  case (request w k req r t)
  then show ?case by (simp add: chat_ok_def all_posts_def)
qed

lemma chat_ok_reach: "chat_reach E k \<Longrightarrow> chat_ok E k"
  by (induction rule: chat_reach.induct) (auto intro: chat_ok_start chat_ok_step dest: chat_reach_world)

section \<open>What is handled is what was received\<close>

definition handled :: "'w chat \<Rightarrow> (string \<times> user_claims) list" where
  "handled k = map (\<lambda>(c, msg, tr). (msg, c)) (ch_runs k)"

lemma session_pool_step:
  assumes "ws_session_step E w w'"
  shows "ww_pool w' = ww_pool w \<or> (\<exists>t. add_task t (ww_pool w) = (Ret (), ww_pool w'))"
  using assms
proof (induction rule: ws_session_step.induct)
  case (received w h x ec msg ws es p)
  then show ?case
    by (auto simp: ws_on_read_def ret_def undef_def andthen_def add_task_def split: if_splits option.splits)
qed simp_all

lemma chat_pool_step:
  assumes "chat_step E k k'" "\<not> tp_dead (ww_pool (ch_world k))" "pool_inv (ww_pool (ch_world k))"
  shows "pool_inv (ww_pool (ch_world k'))"
  using assms
proof (induction rule: chat_step.induct)
  case (sessions k w)
  then show ?case
    using session_pool_step [OF sessions.hyps] pool_step.submit [where throws = "\<lambda>_. False"] by (fastforce intro: pool_step_inv)
next
  case (turn throws k p)
  then show ?case by (simp add: pool_step_inv)
next
  case (message w k i msg c t)
  then have "pool_step (\<lambda>_. False) (ww_pool w) ((ww_pool w)\<lparr>tp_workers := (tp_workers (ww_pool w))[i := Checking],
      tp_done := tp_done (ww_pool w) @ [(msg, c)]\<rparr>)"
    by (intro pool_step.work pool_work.finish) simp_all
  with message show ?case by (simp add: pool_step_inv)
next
  case (message_escapes w k i msg c r t e)
  then have "pool_step (\<lambda>_. True) (ww_pool w) ((ww_pool w)\<lparr>tp_dead := True\<rparr>)"
    by (intro pool_step.work pool_work.escape [where i = i]) simp_all
  with message_escapes show ?case by (simp add: pool_step_inv)
qed simp

lemma add_task_done: "add_task t p = (Ret (), q) \<Longrightarrow> tp_done q = tp_done p"
  by (auto simp: add_task_def split: if_splits)

lemma chat_handled_step:
  assumes "chat_step E k k'" "handled k = tp_done (ww_pool (ch_world k))"
  shows "tp_dead (ww_pool (ch_world k')) \<or> handled k' = tp_done (ww_pool (ch_world k'))"
  using assms
proof (induction rule: chat_step.induct)
  case (sessions k w)
  then show ?case
    using session_pool_step [OF sessions.hyps] add_task_done by (fastforce simp: handled_def)
qed (simp_all add: handled_def)

lemma chat_reach_pool:
  "chat_reach E k \<Longrightarrow> pool_inv (ww_pool (ch_world k)) \<and>
     (tp_dead (ww_pool (ch_world k)) \<or> handled k = tp_done (ww_pool (ch_world k)))"
proof (induction rule: chat_reach.induct)
  case (start s n)
  have "tp_done (new_pool n :: (string \<times> user_claims) pool) = []" by (simp add: new_pool_def)
  then show ?case by (simp add: chat_start_def ws_world_start_def pool_inv_new handled_def)
next
  case (step k k')
  then show ?case using chat_pool_step chat_handled_step by metis
qed

section \<open>A conversation\<close>

text \<open>A user logs in and sends himself a message in room 5; the texts that come back go out.\<close>

definition talk_env :: "unit env" where
  "talk_env = (demo_env (live_mysql (\<lambda>q. [member_row 7]) (\<lambda>q. 1)))\<lparr>
     env_jwt_decode := (\<lambda>t. Inr (login_claims ''bob'' 7 0)),
     env_parse := (\<lambda>b. Inr (JObj [(''type'', JStr ''private_message''), (''data'', JObj
       [(''room_id'', JStr ''5''), (''other_user_id'', JStr ''7''), (''content'', JStr ''hi'')])]))\<rparr>"

definition bob :: user_claims where
  "bob = \<lparr>uc_id = 7, uc_username = ''bob''\<rparr>"

definition online_sys :: "unit sys" where
  "online_sys = demo_sys\<lparr>sys_sessions := [7 \<mapsto> 0], sys_alive := (\<lambda>_. False)(0 := True)\<rparr>"

definition talk :: "ws_object \<Rightarrow> (string \<times> user_claims) pool \<Rightarrow> unit sys \<Rightarrow> (user_claims \<times> string \<times> event list) list \<Rightarrow> unit chat" where
  "talk x p s runs = \<lparr>ch_world = (ws_world_start demo_sys 1)\<lparr>ww_sys := s, ww_pool := p, ww_next := 1, ww_objs := [0 \<mapsto> x]\<rparr>,
     ch_runs = runs, ch_seen = {bob}\<rparr>"

lemma talk_simps [simp]:
  "ww_objs (ch_world (talk x p s runs)) = [0 \<mapsto> x]" "ww_pool (ch_world (talk x p s runs)) = p" "ww_sys (ch_world (talk x p s runs)) = s"
  "put_object 0 y (ch_world (talk x p s runs)) = ch_world (talk y p s runs)"
  "\<not> ww_undef (ch_world (talk x p s runs))" "ch_runs (talk x p s runs) = runs" "ch_seen (talk x p s runs) = {bob}"
  "(ch_world (talk x p s runs))\<lparr>ww_pool := q\<rparr> = ch_world (talk x q s runs)"
  "(ch_world (talk x p s runs))\<lparr>ww_sys := t\<rparr> = ch_world (talk x p t runs)"
  "(talk x p s runs)\<lparr>ch_world := ch_world (talk y q t runs')\<rparr> = talk y q t runs"
  "(talk x p s runs)\<lparr>ch_runs := runs'\<rparr> = talk x p s runs'" "(talk x p s runs)\<lparr>ch_seen := {bob}\<rparr> = talk x p s runs"
  by (simp_all add: talk_def put_object_def ws_world_start_def)

lemma talk_reach:
  assumes "chat_reach talk_env (talk x p s runs)" "\<not> tp_dead p" "chat_step talk_env (talk x p s runs) k"
  shows "chat_reach talk_env k"
  by (rule chat_reach.step [OF assms(1) _ _ assms(3)]) (simp_all add: assms(2))

lemma talk_session:
  assumes "chat_reach talk_env (talk x p s runs)" "\<not> tp_dead p"
    "ws_session_step talk_env (ch_world (talk x p s runs)) (ch_world (talk y q s runs))" "wss_claims (wo_session y) = Some bob"
  shows "chat_reach talk_env (talk y q s runs)"
proof -
  have "claims_of (ch_world (talk y q s runs)) = {bob}" using assms(4) by (auto simp: claims_of_def)
  moreover have "(talk x p s runs)\<lparr>ch_world := ch_world (talk y q s runs), ch_seen := {bob}\<rparr> = talk y q s runs"
    by (simp add: talk_def)
  ultimately show ?thesis
    using talk_reach [OF assms(1,2) chat_step.sessions [OF assms(3)]] by simp
qed

lemma talk_connected: "chat_reach talk_env (talk ((new_object bob_session)\<lparr>wo_accepting := 1\<rparr>) (new_pool 1) online_sys [])"
  (is "chat_reach _ (talk ?x _ _ _)")
proof -
  have "extract_user_claims talk_env ''token'' = Ret bob"
    unfolding bob_def by (rule extract_login_claims [where p = "login_claims ''bob'' 7 0"]) (simp_all add: talk_env_def login_claims_def)
  then have "do_accept talk_env 0 (Some ''token'') new_ws_session (demo_sys\<lparr>sys_sessions := \<lambda>_. None, sys_alive := (\<lambda>_. False)(0 := True)\<rparr>) =
     (Ret (bob_session, [Async_accept]), online_sys)"
    by (simp add: do_accept_def auth_user_def add_session_def run_defs bob_session_def bob_def online_sys_def)
  then have step: "ws_session_step talk_env (ch_world (chat_start demo_sys 1)) (ch_world (talk ?x (new_pool 1) online_sys []))"
    using ws_session_step.connect [where E = talk_env and w = "ws_world_start demo_sys 1" and h = 0
        and authorization = "Some ''token''" and ws = bob_session and es = "[Async_accept]" and s' = online_sys]
    by (simp add: talk_def ws_world_start_def new_object_def logged_in_def owner_def bob_session_def chat_start_def)
  have "wss_claims (wo_session ?x) = Some bob" by (simp add: new_object_def bob_session_def bob_def)
  then have "claims_of (ch_world (talk ?x (new_pool 1) online_sys [])) = {bob}" by (auto simp: claims_of_def)
  then have "(chat_start demo_sys 1)\<lparr>ch_world := ch_world (talk ?x (new_pool 1) online_sys []),
      ch_seen := ch_seen (chat_start demo_sys 1) \<union> claims_of (ch_world (talk ?x (new_pool 1) online_sys []))\<rparr> =
      talk ?x (new_pool 1) online_sys []"
    by (simp add: chat_start_def talk_def)
  with chat_step.sessions [OF step] have "chat_step talk_env (chat_start demo_sys 1) (talk ?x (new_pool 1) online_sys [])"
    by simp
  then show ?thesis
    by (rule chat_reach.step [OF chat_reach.start, rotated 2]) (simp_all add: chat_start_def ws_world_start_def new_pool_def)
qed

lemma talk_handled:
  "\<exists>t tr. handle_message talk_env ''m'' bob online_sys = (Ret (), t) \<and> db_log t = db_log online_sys @ tr \<and>
     posts tr = [(0, ''json''), (0, ''json'')]"
proof -
  have "to_string 5 = ''5''" "to_string 7 = ''7''" by code_simp+
  then have ids: "stoull ''5'' = Ret 5" "stoull ''7'' = Ret 7" using stoull_to_string [of 5] stoull_to_string [of 7] by simp_all
  let ?sf = "\<lparr>sf_service_id = 1, sf_sequence_id = 0, sf_last_timestamp = 1, sf_custom_epoch = 1, sf_ticks = 0\<rparr>"
  obtain x sf where sf: "next_id (\<lambda>n. of_nat n + 100) ?sf = (Ret x, sf)"
    by (simp add: sf_unfold Let_def)
  have on: "online (s\<lparr>sys_sessions := [7 \<mapsto> 0], sys_alive := (\<lambda>_. False)(0 := True)\<rparr>) 7 = Some 0" for s :: "unit sys"
    by (simp add: online_def)
  show ?thesis
    using sf
    by (simp add: handle_message_def handle_parsed_def handle_private_message_def talk_env_def to_client_private_msg_def
        json_simps is_object_def is_string_def c_str_def info_text_def run_defs demo_defs ids online_sys_def write_to_run online_def bob_def)
qed

definition read_object :: ws_object where
  "read_object = (new_object (bob_session\<lparr>wss_buffer := ''m''\<rparr>))\<lparr>wo_reads := 1\<rparr>"

definition talk_pool :: "(string \<times> user_claims) pool" where
  "talk_pool = worker_check 0 (snd (add_task (''m'', bob) (new_pool 1)))"

lemmas talk_defs = new_object_def bob_session_def new_ws_session_def bob_def

lemma talk_read: "chat_reach talk_env (talk read_object talk_pool online_sys [])"
proof -
  define x1 where "x1 = (new_object bob_session)\<lparr>wo_accepting := 1\<rparr>"
  define x2 where "x2 = (new_object bob_session)\<lparr>wo_reads := 1\<rparr>"
  define p1 :: "(string \<times> user_claims) pool" where "p1 = snd (add_task (''m'', bob) (new_pool 1))"
  note defs = x1_def x2_def talk_defs
  have r1: "chat_reach talk_env (talk x1 (new_pool 1) online_sys [])" unfolding x1_def by (rule talk_connected)
  have s1: "ws_session_step talk_env (ch_world (talk x1 (new_pool 1) online_sys [])) (ch_world (talk x2 (new_pool 1) online_sys []))"
    using ws_session_step.accepted [where w = "ch_world (talk x1 (new_pool 1) online_sys [])" and h = 0 and x = x1 and ec = Ok]
    by (simp add: defs ws_on_accept_def)
  have r2: "chat_reach talk_env (talk x2 (new_pool 1) online_sys [])"
    by (rule talk_session [OF r1 _ s1]) (simp_all add: defs new_pool_def)
  have "ws_on_read Pair Ok (ws_arrive ''m'' (wo_session x2)) (new_pool 1) = (Ret (bob_session\<lparr>wss_buffer := ''m''\<rparr>, [Async_read]), p1)"
    by (simp add: ws_on_read_def ws_arrive_def defs p1_def add_task_def new_pool_def andthen_def ret_def)
  then have s2: "ws_session_step talk_env (ch_world (talk x2 (new_pool 1) online_sys [])) (ch_world (talk read_object p1 online_sys []))"
    using ws_session_step.received [where w = "ch_world (talk x2 (new_pool 1) online_sys [])" and h = 0 and x = x2 and ec = Ok
        and msg = "''m''" and ws = "bob_session\<lparr>wss_buffer := ''m''\<rparr>" and es = "[Async_read]" and p = p1]
    by (simp add: x2_def read_object_def new_object_def)
  have r3: "chat_reach talk_env (talk read_object p1 online_sys [])"
    by (rule talk_session [OF r2 _ s2]) (simp_all add: defs read_object_def new_pool_def)
  have "pool_step (\<lambda>_. False) p1 talk_pool"
    unfolding talk_pool_def p1_def by (intro pool_step.work pool_work.check) (simp_all add: add_task_def new_pool_def)
  then have s3: "chat_step talk_env (talk read_object p1 online_sys []) (talk read_object talk_pool online_sys [])"
    using chat_step.turn [of "\<lambda>_. False" "talk read_object p1 online_sys []" talk_pool talk_env]
    by (simp add: p1_def talk_pool_def add_task_def new_pool_def worker_check_def)
  show ?thesis by (rule talk_reach [OF r3 _ s3]) (simp add: p1_def add_task_def new_pool_def)
qed

definition posted_object :: ws_object where
  "posted_object = ws_post 7 ''json'' (ws_post 7 ''json'' read_object)"

text \<open>The worker handles the message.\<close>

lemma talk_message:
  "\<exists>p t tr. chat_step talk_env (talk read_object talk_pool online_sys []) (talk posted_object p t [(bob, ''m'', tr)]) \<and> \<not> tp_dead p"
proof -
  obtain t tr where t: "handle_message talk_env ''m'' bob online_sys = (Ret (), t)"
    "run_log online_sys t = tr" "posts tr = [(0, ''json''), (0, ''json'')]"
    using talk_handled run_log_append by blast
  let ?k = "talk read_object talk_pool online_sys []"
  define p where "p = talk_pool\<lparr>tp_workers := [Checking], tp_done := [(''m'', bob)]\<rparr>"
  have pool: "tp_workers talk_pool = [Running (''m'', bob)]" "tp_done talk_pool = []" "\<not> tp_dead talk_pool"
    by (simp_all add: talk_pool_def add_task_def new_pool_def worker_check_def)
  have own: "owner (ch_world (talk x q s runs)) 0 = user_of x" for x q s runs by (simp add: owner_def)
  have "user_of read_object = Some 7" "user_of (ws_post 7 ''json'' read_object) = Some 7"
    by (simp_all add: talk_defs read_object_def ws_post_def user_of_def)
  then have run: "(after_run t (ch_world ?k))\<lparr>ww_pool := p\<rparr> = ch_world (talk posted_object p t [(bob, ''m'', tr)])"
    using t by (simp add: after_run_def own posted_object_def) (simp add: talk_def)
  have "chat_step talk_env ?k (talk posted_object p t [(bob, ''m'', tr)])"
    using chat_step.message [where w = "ch_world ?k" and k = ?k and i = 0 and msg = "''m''" and c = bob and t = t and E = talk_env]
      t pool run
    by (simp add: p_def [symmetric] talk_def)
  then show ?thesis using pool(3) by (intro exI conjI) (assumption, simp add: p_def)
qed

lemma talked:
  "\<exists>k x tr. chat_reach talk_env k \<and> \<not> ww_undef (ch_world k) \<and> ww_objs (ch_world k) 0 = Some x \<and>
     wo_written x = [''json''] \<and> ch_runs k = [(bob, ''m'', tr)]"
proof -
  define x2 where "x2 = posted_object\<lparr>wo_session := bob_session\<lparr>wss_buffer := ''m'', wss_queue := [''json'']\<rparr>,
    wo_posted := [''json''], wo_writing := [''json'']\<rparr>"
  define x3 where "x3 = x2\<lparr>wo_session := bob_session\<lparr>wss_buffer := ''m''\<rparr>, wo_writing := [], wo_written := [''json'']\<rparr>"
  note defs = x2_def x3_def talk_defs posted_object_def read_object_def ws_post_def
  obtain p t tr where step: "chat_step talk_env (talk read_object talk_pool online_sys []) (talk posted_object p t [(bob, ''m'', tr)])"
    and dead: "\<not> tp_dead p"
    using talk_message by blast
  let ?talk = "\<lambda>x. talk x p t [(bob, ''m'', tr)]"
  have r1: "chat_reach talk_env (?talk posted_object)"
    by (rule talk_reach [OF talk_read _ step]) (simp add: talk_pool_def add_task_def new_pool_def worker_check_def)
  have s1: "ws_session_step talk_env (ch_world (?talk posted_object)) (ch_world (?talk x2))"
    using ws_session_step.sent [where w = "ch_world (?talk posted_object)" and h = 0 and x = posted_object and m = "''json''"
        and ms = "[''json'']" and ws = "wo_session x2" and es = "[Async_write ''json'']" and E = talk_env]
    by (simp add: defs ws_on_send_def)
  have r2: "chat_reach talk_env (?talk x2)"
    by (rule talk_session [OF r1 dead s1]) (simp add: defs)
  have s2: "ws_session_step talk_env (ch_world (?talk x2)) (ch_world (?talk x3))"
    using ws_session_step.written [where w = "ch_world (?talk x2)" and h = 0 and x = x2 and m = "''json''" and ms = "[]"
        and ws = "wo_session x3" and es = "[]" and ec = Ok and E = talk_env]
    by (simp add: defs ws_on_write_def)
  have "chat_reach talk_env (?talk x3)"
    by (rule talk_session [OF r2 dead s2]) (simp add: defs)
  moreover have "ww_objs (ch_world (?talk x3)) 0 = Some x3" "wo_written x3 = [''json'']" "\<not> ww_undef (ch_world (?talk x3))"
    "ch_runs (?talk x3) = [(bob, ''m'', tr)]"
    by (simp_all add: x3_def)
  ultimately show ?thesis by blast
qed

section \<open>Properties\<close>

text \<open>
  C5: the service, whose handlers run from start to end in one step, is refined by the interleavings of
  the sessions' world: every step is a sequence of accepts, reads, locked lookups, posts, writes
  and moves of workers there, so the invariants of those interleavings hold for the service.
\<close>

theorem chat_refines_ws_world:
  assumes "chat_reach E k" "chat_step E k k'"
  shows "(ws_world_step E)\<^sup>*\<^sup>* (ch_world k) (ch_world k') \<and> (ww_undef (ch_world k) \<or> ws_world_reach E (ch_world k))"
  using chat_step_refines [OF assms(2)] chat_reach_world [OF assms(1)] chat_reach_held [OF assms(1)] by blast

lemma chat_refines_ws_world_witness:
  "\<exists>p t tr. (ws_world_step talk_env)\<^sup>*\<^sup>* (ch_world (talk read_object talk_pool online_sys []))
     (ch_world (talk posted_object p t [(bob, ''m'', tr)]))"
  using talk_message chat_refines_ws_world [OF talk_read] by blast







end
