(* ===== verification/NestedScopes.thy ===== *)
theory NestedScopes
  imports SqlPool
begin

text \<open>
  Workers whose job opens a second scoped connection inside the first, as
  \<open>handle_group_message\<close> does when it calls \<open>write_to_room\<close> with its own connection still in
  scope: how many workers a pool of connections can serve without a deadlock. The connections
  stay alive here; what happens when they do not is in \<open>SqlPool\<close>.
\<close>

section \<open>One scope\<close>

text \<open>A scope of client \<open>i\<close> on live connections: the steps of \<open>sql_step\<close> it can take.\<close>

inductive scope_step :: "nat \<Rightarrow> shared \<Rightarrow> shared \<Rightarrow> bool" for i where
  sc_acquire: "sh_clients s ! i = Idle \<Longrightarrow> sem_acquire (sh_pool s) = Ret ((), p) \<Longrightarrow>
    scope_step i s (s\<lparr>sh_pool := p, sh_clients := (sh_clients s)[i := Acquired]\<rparr>)"
| sc_pop: "sh_clients s ! i = Acquired \<Longrightarrow> pop_conn (sh_pool s) = Ret (c, p) \<Longrightarrow>
    scope_step i s (s\<lparr>sh_pool := p, sh_clients := (sh_clients s)[i := Holding c]\<rparr>)"
| sc_push: "sh_clients s ! i = Holding c \<Longrightarrow> push_conn c (sh_pool s) = Ret ((), p) \<Longrightarrow>
    scope_step i s (s\<lparr>sh_pool := p, sh_clients := (sh_clients s)[i := Releasing]\<rparr>)"
| sc_release: "sh_clients s ! i = Releasing \<Longrightarrow> sem_release (sh_pool s) = Ret ((), p) \<Longrightarrow>
    scope_step i s (s\<lparr>sh_pool := p, sh_clients := (sh_clients s)[i := Idle]\<rparr>)"

lemma scope_step_sql: "scope_step i s t \<Longrightarrow> i < length (sh_clients s) \<Longrightarrow> sql_step s t"
  by (induction rule: scope_step.induct) (auto intro: sql_step.intros)

text \<open>What a scope step leaves alone, and what it makes of its own client.\<close>

lemma scope_step_frame:
  assumes "scope_step i s t"
  shows "sh_leaked t = sh_leaked s" "length (sh_clients t) = length (sh_clients s)"
    "j \<noteq> i \<Longrightarrow> sh_clients t ! j = sh_clients s ! j"
  using assms by (induction rule: scope_step.induct) simp_all

definition live_client :: "client \<Rightarrow> bool" where
  "live_client v \<longleftrightarrow> (case v of Replacing c \<Rightarrow> False | _ \<Rightarrow> True)"

lemma scope_step_live:
  assumes "scope_step i s t" "i < length (sh_clients s)" "\<forall>v \<in> set (sh_clients s). live_client v"
  shows "\<forall>v \<in> set (sh_clients t). live_client v"
  using assms by (induction rule: scope_step.induct) (auto simp: live_client_def dest!: set_update_subset_insert [THEN subsetD])

text \<open>A client can step unless it waits for a permit and there is none.\<close>

lemma scope_can_step:
  assumes "sql_inv cap s" "i < length (sh_clients s)" "live_client (sh_clients s ! i)"
    "sh_clients s ! i = Idle \<Longrightarrow> sp_smph (sh_pool s) \<noteq> Some 0"
  shows "\<exists>t. scope_step i s t"
proof -
  obtain n where n: "sp_smph (sh_pool s) = Some n" using sql_inv_smph [OF assms(1)] by blast
  show ?thesis
  proof (cases "sh_clients s ! i")
    case Idle
    with n assms(4) have "sem_acquire (sh_pool s) = Ret ((), (sh_pool s)\<lparr>sp_smph := Some (n - 1)\<rparr>)"
      by (cases n) (simp_all add: sem_acquire_def)
    with Idle show ?thesis by (blast intro: scope_step.intros)
  next
    case Acquired
    with sql_inv_Acquired [OF assms(1,2)] obtain c cs where "sp_queue (sh_pool s) = c # cs"
      by (auto simp: neq_Nil_conv)
    then have "pop_conn (sh_pool s) = Ret (c, (sh_pool s)\<lparr>sp_queue := cs\<rparr>)" by (simp add: pop_conn_def)
    with Acquired show ?thesis by (blast intro: scope_step.intros)
  next
    case (Holding c)
    have "push_conn c (sh_pool s) = Ret ((), (sh_pool s)\<lparr>sp_queue := sp_queue (sh_pool s) @ [c]\<rparr>)"
      by (simp add: push_conn_def)
    with Holding show ?thesis by (blast intro: scope_step.intros)
  next
    case Releasing
    from n have "sem_release (sh_pool s) = Ret ((), (sh_pool s)\<lparr>sp_smph := Some (Suc n)\<rparr>)"
      by (simp add: sem_release_def)
    with Releasing show ?thesis by (blast intro: scope_step.intros)
  next
    case OutOfSync
    with assms(1,2) show ?thesis by (metis nth_mem sql_inv_def)
  qed (use assms(3) in \<open>simp add: live_client_def\<close>)
qed

section \<open>Workers\<close>

text \<open>
  Worker \<open>w\<close> of \<open>n\<close> runs one job after the other; its outer scope is client \<open>w\<close>, the inner one
  client \<open>n + w\<close>. \<open>jb_done\<close>: the inner scope of its current job is over. The outer scope cannot
  end before the inner one has, and the inner one is opened once, while the outer one holds its connection.
\<close>

record jobs =
  jb_shared :: shared
  jb_done :: "bool list"

definition jobs_init :: "nat \<Rightarrow> nat \<Rightarrow> jobs" where
  "jobs_init cap n = \<lparr>jb_shared = shared_init cap (n + n), jb_done = replicate n False\<rparr>"

definition holds :: "client \<Rightarrow> bool" where
  "holds v \<longleftrightarrow> (case v of Holding c \<Rightarrow> True | _ \<Rightarrow> False)"

inductive job_step :: "nat \<Rightarrow> jobs \<Rightarrow> jobs \<Rightarrow> bool" for n where
  outer_scope: "w < n \<Longrightarrow> holds (sh_clients (jb_shared b) ! w) \<longrightarrow> jb_done b ! w \<Longrightarrow>
    scope_step w (jb_shared b) t \<Longrightarrow>
    job_step n b (b\<lparr>jb_shared := t, jb_done := (jb_done b)[w := (jb_done b ! w \<and> sh_clients t ! w \<noteq> Idle)]\<rparr>)"
| inner_scope: "w < n \<Longrightarrow> holds (sh_clients (jb_shared b) ! w) \<Longrightarrow> \<not> jb_done b ! w \<Longrightarrow>
    scope_step (n + w) (jb_shared b) t \<Longrightarrow>
    job_step n b (b\<lparr>jb_shared := t, jb_done := (jb_done b)[w := (sh_clients t ! (n + w) = Idle)]\<rparr>)"

inductive job_reach :: "nat \<Rightarrow> nat \<Rightarrow> jobs \<Rightarrow> bool" for cap n where
  start: "job_reach cap n (jobs_init cap n)"
| step: "job_reach cap n b \<Longrightarrow> job_step n b b' \<Longrightarrow> job_reach cap n b'"

text \<open>No worker can go on.\<close>

definition deadlocked :: "nat \<Rightarrow> jobs \<Rightarrow> bool" where
  "deadlocked n b \<longleftrightarrow> \<not> (\<exists>b'. job_step n b b')"

section \<open>Invariant\<close>

definition jobs_ok :: "nat \<Rightarrow> nat \<Rightarrow> jobs \<Rightarrow> bool" where
  "jobs_ok cap n b \<longleftrightarrow> sql_inv cap (jb_shared b) \<and> sh_leaked (jb_shared b) = 0 \<and>
     length (sh_clients (jb_shared b)) = n + n \<and> length (jb_done b) = n \<and>
     (\<forall>v \<in> set (sh_clients (jb_shared b)). live_client v) \<and>
     (\<forall>w < n. sh_clients (jb_shared b) ! (n + w) \<noteq> Idle \<longrightarrow>
        holds (sh_clients (jb_shared b) ! w) \<and> \<not> jb_done b ! w)"

lemma jobs_ok_init: "jobs_ok cap n (jobs_init cap n)"
  using sql_inv_init [of cap "n + n"]
  by (auto simp: jobs_ok_def jobs_init_def shared_init_def live_client_def)

lemma jobs_ok_step:
  assumes "job_step n b b'" "jobs_ok cap n b"
  shows "jobs_ok cap n b'"
  using assms
proof (induction rule: job_step.induct)
  case (outer_scope w b t)
  then have w: "w < length (sh_clients (jb_shared b))" by (simp add: jobs_ok_def)
  note live = scope_step_live [OF outer_scope.hyps(3) w] and frame = scope_step_frame [OF outer_scope.hyps(3)]
  have "sql_inv cap t"
    using sql_step_inv [OF scope_step_sql [OF outer_scope.hyps(3) w]] outer_scope.prems by (simp add: jobs_ok_def)
  moreover have "holds (sh_clients t ! v) \<and> \<not> (jb_done b)[w := (jb_done b ! w \<and> sh_clients t ! w \<noteq> Idle)] ! v"
    if "v < n" "sh_clients t ! (n + v) \<noteq> Idle" for v
  proof -
    have "sh_clients (jb_shared b) ! (n + v) \<noteq> Idle" using that frame(3) [of "n + v"] outer_scope.hyps(1) by simp
    with outer_scope.prems that(1) have h: "holds (sh_clients (jb_shared b) ! v) \<and> \<not> jb_done b ! v"
      by (simp add: jobs_ok_def)
    with outer_scope.hyps(2) have "v \<noteq> w" by blast
    with h frame(3) [of v] show ?thesis by simp
  qed
  ultimately show ?case using outer_scope.prems live frame by (simp add: jobs_ok_def)
next
  case (inner_scope w b t)
  then have w: "n + w < length (sh_clients (jb_shared b))" by (simp add: jobs_ok_def)
  note live = scope_step_live [OF inner_scope.hyps(4) w] and frame = scope_step_frame [OF inner_scope.hyps(4)]
  have "sql_inv cap t"
    using sql_step_inv [OF scope_step_sql [OF inner_scope.hyps(4) w]] inner_scope.prems by (simp add: jobs_ok_def)
  moreover have "holds (sh_clients t ! v) \<and> \<not> (jb_done b)[w := (sh_clients t ! (n + w) = Idle)] ! v"
    if "v < n" "sh_clients t ! (n + v) \<noteq> Idle" for v
  proof (cases "v = w")
    case True
    with that inner_scope frame(3) [of w] show ?thesis by (simp add: jobs_ok_def)
  next
    case False
    with that frame(3) [of "n + v"] inner_scope.prems have "holds (sh_clients (jb_shared b) ! v) \<and> \<not> jb_done b ! v"
      by (simp add: jobs_ok_def)
    with False that(1) frame(3) [of v] show ?thesis by simp
  qed
  ultimately show ?case using inner_scope.prems live frame by (simp add: jobs_ok_def)
qed

lemma jobs_ok_reach: "job_reach cap n b \<Longrightarrow> jobs_ok cap n b"
  by (induction rule: job_reach.induct) (auto intro: jobs_ok_init jobs_ok_step)

section \<open>Enough connections\<close>

lemma jobs_can_step:
  assumes "jobs_ok cap n b" "w < n" "sp_smph (sh_pool (jb_shared b)) \<noteq> Some 0 \<or> sh_clients (jb_shared b) ! (n + w) \<noteq> Idle"
  shows "\<exists>b'. job_step n b b'"
proof -
  have can: "\<exists>t. scope_step i (jb_shared b) t"
    if "i < n + n" "sh_clients (jb_shared b) ! i = Idle \<Longrightarrow> sp_smph (sh_pool (jb_shared b)) \<noteq> Some 0" for i
    using assms(1) that nth_mem [of i "sh_clients (jb_shared b)"]
    by (intro scope_can_step [where cap = cap]) (simp_all add: jobs_ok_def)
  show ?thesis
  proof (cases "holds (sh_clients (jb_shared b) ! w) \<and> \<not> jb_done b ! w")
    case True
    then show ?thesis using can [of "n + w"] assms(2,3) job_step.inner_scope [of w n b] by auto
  next
    case False
    then have "sh_clients (jb_shared b) ! (n + w) = Idle" using assms(1,2) by (auto simp: jobs_ok_def)
    with assms(3) False show ?thesis using can [of w] assms(2) job_step.outer_scope [of w n b] by auto
  qed
qed

text \<open>Without a free permit some worker has two, and its inner scope needs no further one.\<close>

lemma someone_is_inside:
  assumes "jobs_ok cap n b" "n < cap" "sp_smph (sh_pool (jb_shared b)) = Some 0"
  shows "\<exists>w < n. sh_clients (jb_shared b) ! (n + w) \<noteq> Idle"
proof (rule ccontr)
  let ?cl = "sh_clients (jb_shared b)"
  assume "\<not> (\<exists>w < n. ?cl ! (n + w) \<noteq> Idle)"
  then have "\<forall>w < n. sem_permit (?cl ! (n + w)) = 0" by simp
  moreover have "\<forall>w < n. sem_permit (?cl ! w) \<le> 1"
  proof (intro allI impI)
    fix w assume "w < n"
    with assms(1) have "live_client (?cl ! w)" by (simp add: jobs_ok_def)
    then show "sem_permit (?cl ! w) \<le> 1" by (cases "?cl ! w") (simp_all add: live_client_def)
  qed
  ultimately have "(\<Sum>w = 0..<n. sem_permit (?cl ! w) + sem_permit (?cl ! (n + w))) \<le> (\<Sum>w = 0..<n. 1)"
    by (intro sum_mono) simp
  moreover have "(\<Sum>w = 0..<n. sem_permit (?cl ! w) + sem_permit (?cl ! (n + w))) = sum_list (map sem_permit ?cl)"
  proof -
    have "sum_list (map sem_permit ?cl) = (\<Sum>w = 0..<n + n. sem_permit (?cl ! w))"
      using assms(1) by (simp add: sum_list_sum_nth jobs_ok_def)
    also have "\<dots> = (\<Sum>w = 0..<n. sem_permit (?cl ! w)) + (\<Sum>w = n..<n + n. sem_permit (?cl ! w))"
      by (simp add: sum.atLeastLessThan_concat)
    also have "(\<Sum>w = n..<n + n. sem_permit (?cl ! w)) = (\<Sum>w = 0..<n. sem_permit (?cl ! (n + w)))"
      using sum.shift_bounds_nat_ivl [of "\<lambda>w. sem_permit (?cl ! w)" 0 n n] by (simp add: add.commute)
    finally show ?thesis by (simp add: sum.distrib)
  qed
  moreover have "sum_list (map sem_permit ?cl) = cap"
    using assms(1,3) by (simp add: jobs_ok_def sql_inv_def)
  ultimately show False using assms(2) by simp
qed

lemma no_deadlock:
  assumes "job_reach cap n b" "0 < n" "n < cap"
  shows "\<not> deadlocked n b"
proof -
  have ok: "jobs_ok cap n b" using assms(1) by (rule jobs_ok_reach)
  then show ?thesis
    using someone_is_inside [OF ok assms(3)] jobs_can_step [OF ok] assms(2) by (auto simp: deadlocked_def)
qed

section \<open>Too few connections\<close>

text \<open>The first \<open>j\<close> workers have opened their outer scopes.\<close>

definition outer_open :: "nat \<Rightarrow> nat \<Rightarrow> nat \<Rightarrow> jobs" where
  "outer_open cap n j =
     \<lparr>jb_shared = \<lparr>sh_pool = \<lparr>sp_smph = Some (cap - j), sp_max_conn = int cap, sp_queue = [j..<cap]\<rparr>,
        sh_clients = map Holding [0..<j] @ replicate (n + n - j) Idle, sh_next = cap, sh_leaked = 0\<rparr>,
      jb_done = replicate n False\<rparr>"

lemma outer_open_next:
  assumes "job_reach cap n (outer_open cap n j)" "j < cap" "j < n"
  shows "job_reach cap n (outer_open cap n (Suc j))"
proof -
  let ?b = "outer_open cap n j"
  let ?s = "jb_shared ?b"
  let ?p = "(sh_pool ?s)\<lparr>sp_smph := Some (cap - Suc j)\<rparr>"
  let ?t = "?s\<lparr>sh_pool := ?p, sh_clients := (sh_clients ?s)[j := Acquired]\<rparr>"
  have j: "sh_clients ?s ! j = Idle" using assms(3) by (simp add: outer_open_def nth_append)
  obtain k where k: "n + n - j = Suc k" "n + n - Suc j = k" using assms(3) by (cases "n + n - j") auto
  have d: "(replicate n False)[j := False] = replicate n False" using assms(3) by (simp add: list_update_same_conv)
  have "scope_step j ?s ?t"
    by (rule sc_acquire [OF j]) (use assms(2) in \<open>simp add: sem_acquire_def outer_open_def\<close>)
  with assms(3) j have one: "job_reach cap n (?b\<lparr>jb_shared := ?t\<rparr>)"
    using job_reach.step [OF assms(1) job_step.outer_scope [of j n ?b ?t]]
    by (simp add: holds_def) (simp add: outer_open_def d)
  have "scope_step j ?t (?t\<lparr>sh_pool := ?p\<lparr>sp_queue := [Suc j..<cap]\<rparr>, sh_clients := (sh_clients ?t)[j := Holding j]\<rparr>)"
    by (rule sc_pop) (use assms(2,3) in \<open>simp_all add: pop_conn_def outer_open_def upt_conv_Cons\<close>)
  then show ?thesis
    using job_reach.step [OF one job_step.outer_scope [of j n "?b\<lparr>jb_shared := ?t\<rparr>"
      "?t\<lparr>sh_pool := ?p\<lparr>sp_queue := [Suc j..<cap]\<rparr>, sh_clients := (sh_clients ?t)[j := Holding j]\<rparr>"]] assms(3)
    by (simp add: holds_def outer_open_def d k list_update_append nth_append)
qed

lemma outer_open_reach: "j \<le> cap \<Longrightarrow> j \<le> n \<Longrightarrow> job_reach cap n (outer_open cap n j)"
proof (induction j)
  case 0
  then show ?case
    using job_reach.start [of cap n] by (simp add: jobs_init_def shared_init_def outer_open_def)
next
  case (Suc j)
  then show ?case by (simp add: outer_open_next)
qed

lemma outer_open_deadlocked:
  assumes "cap \<le> n"
  shows "deadlocked n (outer_open cap n cap)"
proof -
  let ?b = "outer_open cap n cap"
  have idle: "\<not> scope_step i (jb_shared ?b) t" if "cap \<le> i" "i < n + n" for i t
  proof
    assume "scope_step i (jb_shared ?b) t"
    then show False
      by (cases rule: scope_step.cases) (use that in \<open>simp_all add: outer_open_def sem_acquire_def nth_append\<close>)
  qed
  have "\<not> job_step n ?b b'" for b'
  proof
    assume "job_step n ?b b'"
    then show False
    proof (cases rule: job_step.cases)
      case (outer_scope w t)
      then have "cap \<le> w" by (rule_tac ccontr) (simp add: outer_open_def holds_def nth_append)
      with outer_scope idle show False by simp
    next
      case (inner_scope w t)
      with assms idle [of "n + w"] show False by simp
    qed
  qed
  then show ?thesis by (simp add: deadlocked_def)
qed

section \<open>Property\<close>

text \<open>
  C18: workers whose jobs open a connection inside a connection, as group messages do, can all end up
  waiting for each other exactly when there are at least as many workers as connections; the
  configuration checks the two numbers separately, so nothing keeps them apart.
\<close>

theorem nested_scopes_deadlock_iff:
  assumes "0 < n"
  shows "(\<exists>b. job_reach cap n b \<and> deadlocked n b) \<longleftrightarrow> cap \<le> n"
  using no_deadlock [OF _ assms] outer_open_reach [of cap cap n] outer_open_deadlocked [of cap n]
  by (meson le_refl linorder_not_less)

lemma nested_scopes_deadlock_iff_witness:
  "(\<exists>b. job_reach 4 4 b \<and> deadlocked 4 b) \<and> \<not> (\<exists>b. job_reach 5 4 b \<and> deadlocked 4 b)"
  using nested_scopes_deadlock_iff [of 4 4] nested_scopes_deadlock_iff [of 4 5] by simp

end
