(* ===== verification/SnowflakeTest.thy ===== *)
theory SnowflakeTest
  imports Config Snowflake "HOL-Library.Multiset"
begin

text \<open>
  The test program: \<open>src/tests/snowflake_test.hpp\<close> and \<open>src/src/test_main.cpp\<close>. Four threads
  make ten ids each and store them in rows of their own; the main thread joins them and prints
  what it decodes. \<open>next_id\<close> holds its mutex throughout, so an interleaving is a sequence of whole
  calls, given by the list of the threads that make them.
\<close>

section \<open>The threads\<close>

record test_run =
  tr_ids :: "u64 list list"
  tr_left :: "nat list"
  tr_sf :: snowflake

definition test_start :: "snowflake \<Rightarrow> test_run" where
  "test_start s = \<lparr>tr_ids = replicate 6 [], tr_left = replicate 4 10, tr_sf = s\<rparr>"

text \<open>Thread \<open>i\<close> makes its next id; an exception out of a thread's function ends the process.\<close>

definition thread_turn :: "(nat \<Rightarrow> u64) \<Rightarrow> nat \<Rightarrow> test_run \<Rightarrow> test_run outcome" where
  "thread_turn clk i r =
     (if length (tr_left r) \<le> i \<or> tr_left r ! i = 0 then Ret r
      else case next_id clk (tr_sf r) of
          (Ret x, sf) \<Rightarrow> Ret (r\<lparr>tr_sf := sf, tr_ids := (tr_ids r)[i := tr_ids r ! i @ [x]],
                               tr_left := (tr_left r)[i := tr_left r ! i - 1]\<rparr>)
        | (Throw e, sf) \<Rightarrow> Terminate
        | (Undef, sf) \<Rightarrow> Undef
        | (Hang, sf) \<Rightarrow> Hang
        | (Terminate, sf) \<Rightarrow> Terminate)"

fun run_threads :: "(nat \<Rightarrow> u64) \<Rightarrow> nat list \<Rightarrow> test_run \<Rightarrow> test_run outcome" where
  "run_threads clk [] r = Ret r"
| "run_threads clk (i # is) r = obind (thread_turn clk i r) (run_threads clk is)"

text \<open>The joins return when every thread has made its ids; then the rows are decoded in order.\<close>

definition multi_thread_test ::
    "(nat \<Rightarrow> u64) \<Rightarrow> nat list \<Rightarrow> u64 \<Rightarrow> (snowflake, (u64 \<times> u64 \<times> u64) list) prog" where
  "multi_thread_test clk turns own_epoch s =
     (case run_threads clk turns (test_start s) of
        Ret r \<Rightarrow> ((if list_all (\<lambda>n. n = 0) (tr_left r)
                   then Ret (map (parse_id own_epoch) (concat (tr_ids r))) else Hang), tr_sf r)
      | Throw e \<Rightarrow> (Throw e, s)
      | Undef \<Rightarrow> (Undef, s)
      | Hang \<Rightarrow> (Hang, s)
      | Terminate \<Rightarrow> (Terminate, s))"

section \<open>The program\<close>

text \<open>\<open>init\<close> and \<open>main\<close>; the pair is the configuration and the generator. The result is the exit code
  with what was printed of the ids.\<close>

definition on_fst :: "('a, 'x) prog \<Rightarrow> ('a \<times> 'b, 'x) prog" where
  "on_fst m s = (case m (fst s) of (r, a) \<Rightarrow> (r, (a, snd s)))"

definition on_snd :: "('b, 'x) prog \<Rightarrow> ('a \<times> 'b, 'x) prog" where
  "on_snd m s = (case m (snd s) of (r, b) \<Rightarrow> (r, (fst s, b)))"

definition test_init ::
    "(app_config option, unit) prog \<Rightarrow> (nat \<Rightarrow> u64) \<Rightarrow> (app_config option \<times> snowflake, unit) prog" where
  "test_init load clk =
     andthen (on_fst load) (\<lambda>_.
     andthen (on_fst config_get) (\<lambda>cfg.
       on_snd (sf_init clk (sv_service_id (ac_server cfg)) (sv_custom_epoch (ac_server cfg)))))"

definition test_main ::
    "(string \<Rightarrow> bool) \<Rightarrow> (string \<Rightarrow> ptree outcome) \<Rightarrow> bool \<Rightarrow> u64 \<Rightarrow> (nat \<Rightarrow> u64) \<Rightarrow> nat list \<Rightarrow>
      (app_config option \<times> snowflake, int \<times> (u64 \<times> u64 \<times> u64) list) prog" where
  "test_main file_exists read_ini windows indeterminate clk turns =
     try_catch
       (andthen (test_init (config_init file_exists read_ini windows indeterminate ''../../doc/config.ini'') clk) (\<lambda>_.
        andthen (on_fst config_get) (\<lambda>cfg.
        andthen (on_snd (multi_thread_test clk turns (sv_custom_epoch (ac_server cfg)))) (\<lambda>out.
          ret (0, out)))))
       (\<lambda>e. ret (1, []))"

lemma on_fst_Ret: "on_fst m s = (Ret x, t) \<longleftrightarrow> m (fst s) = (Ret x, fst t) \<and> snd t = snd s"
  by (cases s; cases t) (auto simp: on_fst_def split: prod.splits)

lemma on_snd_Ret: "on_snd m s = (Ret x, t) \<longleftrightarrow> m (snd s) = (Ret x, snd t) \<and> fst t = fst s"
  by (cases s; cases t) (auto simp: on_snd_def split: prod.splits)

lemma config_get_Ret: "config_get s = (Ret c, t) \<longleftrightarrow> s = Some c \<and> t = Some c"
  by (auto simp: config_get_def split: option.splits)

section \<open>What the threads keep\<close>

lemma mset_concat_append:
  "i < length rows \<Longrightarrow> mset (concat (rows[i := rows ! i @ [x]])) = mset (x # concat rows)"
proof (induction rows arbitrary: i)
  case (Cons r rows)
  then show ?case by (cases i) auto
qed simp

lemma distinct_concat_append:
  assumes "i < length rows" "distinct (concat rows)" "x \<notin> set (concat rows)"
  shows "distinct (concat (rows[i := rows ! i @ [x]]))"
  using mset_eq_imp_distinct_iff [OF mset_concat_append [OF assms(1), of x]] assms(2,3) by simp

text \<open>Each thread has what it still has to make and what it made; all made ids are old and distinct.\<close>

definition test_inv :: "(nat \<Rightarrow> u64) \<Rightarrow> u64 \<Rightarrow> test_run \<Rightarrow> bool" where
  "test_inv clk svc r \<longleftrightarrow> sf_inv clk (tr_sf r) \<and> sf_service_id (tr_sf r) = svc \<and>
     length (tr_ids r) = 6 \<and> length (tr_left r) = 4 \<and>
     (\<forall>i < 4. length (tr_ids r ! i) + tr_left r ! i = 10) \<and> tr_ids r ! 4 = [] \<and> tr_ids r ! 5 = [] \<and>
     distinct (concat (tr_ids r)) \<and>
     (\<forall>x \<in> set (concat (tr_ids r)). unat x \<le> sf_key (tr_sf r) \<and> fst (snd (parse_id 0 x)) = svc)"

lemma test_inv_turn:
  assumes "test_inv clk svc r" "thread_turn clk i r = Ret r'"
  shows "test_inv clk svc r'"
proof (cases "length (tr_left r) \<le> i \<or> tr_left r ! i = 0")
  case True
  with assms show ?thesis by (simp add: thread_turn_def)
next
  case False
  then obtain x sf where x: "next_id clk (tr_sf r) = (Ret x, sf)"
    and r': "r' = r\<lparr>tr_sf := sf, tr_ids := (tr_ids r)[i := tr_ids r ! i @ [x]], tr_left := (tr_left r)[i := tr_left r ! i - 1]\<rparr>"
    using assms(2) by (auto simp: thread_turn_def split: prod.splits outcome.splits)
  have i: "i < 4" "0 < tr_left r ! i" using False assms(1) by (auto simp: test_inv_def)
  have inv: "sf_inv clk (tr_sf r)" and old: "\<forall>y \<in> set (concat (tr_ids r)). unat y \<le> sf_key (tr_sf r) \<and> fst (snd (parse_id 0 y)) = svc"
    and dist: "distinct (concat (tr_ids r))" and len: "length (tr_ids r) = 6"
    using assms(1) by (auto simp: test_inv_def)
  note step = next_id_step [OF inv x] and val = next_id_ret_value [OF x]
  have key: "unat x = sf_key sf" using sf_inv_key_value [of clk sf] step val(1) by simp
  have svc: "fst (snd (parse_id 0 x)) = svc"
    using next_id_parse [OF inv x] val(3) assms(1) by (simp add: parse_id_fields test_inv_def)
  have "x \<notin> set (concat (tr_ids r))" using old key step by fastforce
  with dist len i have "distinct (concat ((tr_ids r)[i := tr_ids r ! i @ [x]]))" by (intro distinct_concat_append) simp_all
  moreover have "set (concat ((tr_ids r)[i := tr_ids r ! i @ [x]])) \<subseteq> insert x (set (concat (tr_ids r)))"
    using i len by (auto dest!: set_update_subset_insert [THEN subsetD])
  then have "\<forall>y \<in> set (concat ((tr_ids r)[i := tr_ids r ! i @ [x]])). unat y \<le> sf_key sf \<and> fst (snd (parse_id 0 y)) = svc"
    using old key step svc by fastforce
  ultimately show ?thesis
    using assms(1) i step val(3) by (auto simp: test_inv_def r' nth_list_update)
qed

lemma test_inv_run: "run_threads clk turns r = Ret r' \<Longrightarrow> test_inv clk svc r \<Longrightarrow> test_inv clk svc r'"
  by (induction turns arbitrary: r) (auto simp: obind_eq_Ret intro: test_inv_turn)

text \<open>The decoder loses nothing.\<close>

lemma parse_id_inj: "parse_id e x = parse_id e y \<Longrightarrow> x = y"
proof (rule bit_word_eqI)
  fix n assume eq: "parse_id e x = parse_id e y" and "n < LENGTH(64)"
  consider "n < 12" | "12 \<le> n" "n < 22" | "22 \<le> n" by linarith
  then show "bit x n \<longleftrightarrow> bit y n"
  proof cases
    case 1
    from eq have "take_bit 12 x = take_bit 12 y" by (simp add: parse_id_fields)
    with 1 show ?thesis by (metis bit_take_bit_iff)
  next
    case 2
    from eq have "take_bit 10 (drop_bit 12 x) = take_bit 10 (drop_bit 12 y)" by (simp add: parse_id_fields)
    then have "bit (take_bit 10 (drop_bit 12 x)) (n - 12) = bit (take_bit 10 (drop_bit 12 y)) (n - 12)" by simp
    moreover have "n - 12 < 10" using 2 by simp
    ultimately show ?thesis using 2 by (simp add: bit_take_bit_iff bit_drop_bit_eq)
  next
    case 3
    from eq have "drop_bit 22 x = drop_bit 22 y" by (simp add: parse_id_fields)
    then have "bit (drop_bit 22 x) (n - 22) = bit (drop_bit 22 y) (n - 22)" by simp
    with 3 show ?thesis by (simp add: bit_drop_bit_eq)
  qed
qed

section \<open>Properties\<close>

text \<open>When the threads are joined, forty different ids were made.\<close>

lemma multi_thread_test_Ret:
  assumes "sf_init clk svc epoch sf_initial = (Ret (), s1)" "clock_ok clk epoch"
    "multi_thread_test clk turns epoch s1 = (Ret out, s2)"
  shows "length out = 40 \<and> distinct out \<and> (\<forall>p \<in> set out. fst (snd p) = svc)"
proof -
  from assms(3) obtain r where r: "run_threads clk turns (test_start s1) = Ret r"
    "list_all (\<lambda>n. n = 0) (tr_left r)" "out = map (parse_id epoch) (concat (tr_ids r))"
    by (auto simp: multi_thread_test_def split: outcome.splits if_splits)
  have "test_inv clk svc (test_start s1)"
    using sf_init_inv [OF assms(1,2)] by (simp add: test_inv_def test_start_def)
  then have inv: "test_inv clk svc r" using r(1) by (rule test_inv_run [rotated])
  then have "\<forall>i < 4. length (tr_ids r ! i) = 10" using r(2) by (auto simp: test_inv_def list_all_length)
  then have "length (concat (tr_ids r)) = 40"
    using inv by (simp add: test_inv_def length_concat sum_list_sum_nth eval_nat_numeral)
  moreover have "distinct (map (parse_id epoch) (concat (tr_ids r)))"
    using inv by (auto simp: test_inv_def distinct_map inj_on_def dest: parse_id_inj)
  moreover have "fst (snd (parse_id epoch x)) = fst (snd (parse_id 0 x))" for x by (simp add: parse_id_fields)
  ultimately show ?thesis using inv r(3) by (auto simp: test_inv_def)
qed

text \<open>A clock that steps at every reading, and the threads one after the other.\<close>

definition tick_clock :: "nat \<Rightarrow> u64" where
  "tick_clock i = word_of_nat (7 + min i 1000)"

lemma tick_clock_unat: "unat (tick_clock i) = 7 + min i 1000"
  unfolding tick_clock_def unat_of_nat by (simp add: take_bit_nat_eq_self)

lemma tick_clock_ok: "clock_ok tick_clock 7"
  by (auto simp: clock_ok_def word_le_nat_alt tick_clock_unat)

definition tick_state :: "nat \<Rightarrow> snowflake" where
  "tick_state k = \<lparr>sf_service_id = 7, sf_sequence_id = 0, sf_last_timestamp = tick_clock k, sf_custom_epoch = 7,
     sf_ticks = Suc k\<rparr>"

lemma tick_init: "sf_init tick_clock 7 7 sf_initial = (Ret (), tick_state 0)"
proof -
  have "\<not> 1024 \<le> (7 :: u64)" by (simp add: word_le_nat_alt)
  then show ?thesis by (simp add: sf_init_def sf_unfold sf_initial_def tick_state_def)
qed

lemma tick_next:
  assumes "Suc k < 1000"
  shows "next_id tick_clock (tick_state k) = (Ret (compose_id (tick_clock (Suc k) - 7) 7 0), tick_state (Suc k))"
proof -
  have "tick_clock k < tick_clock (Suc k)" using assms by (simp add: word_less_nat_alt tick_clock_unat)
  then have "\<not> tick_clock (Suc k) < tick_clock k" "tick_clock (Suc k) \<noteq> tick_clock k" by auto
  then show ?thesis by (simp add: sf_unfold tick_state_def)
qed

lemma tick_run:
  "tr_sf r = tick_state k \<Longrightarrow> k + length turns < 1000 \<Longrightarrow>
     \<exists>r'. run_threads tick_clock turns r = Ret r' \<and> tr_left r' = fold (\<lambda>i l. l[i := l ! i - 1]) turns (tr_left r)"
proof (induction turns arbitrary: r k)
  case (Cons i turns)
  have skip: "(tr_left r)[i := tr_left r ! i - 1] = tr_left r" if "length (tr_left r) \<le> i \<or> tr_left r ! i = 0"
    using that by (auto simp: list_update_beyond) (metis list_update_id)
  show ?case
  proof (cases "length (tr_left r) \<le> i \<or> tr_left r ! i = 0")
    case True
    then have "thread_turn tick_clock i r = Ret r" by (simp add: thread_turn_def)
    with Cons.IH [of r k] Cons.prems skip [OF True] show ?thesis by simp
  next
    case False
    let ?r = "r\<lparr>tr_sf := tick_state (Suc k), tr_ids := (tr_ids r)[i := tr_ids r ! i @ [compose_id (tick_clock (Suc k) - 7) 7 0]],
      tr_left := (tr_left r)[i := tr_left r ! i - 1]\<rparr>"
    have "thread_turn tick_clock i r = Ret ?r" using False Cons.prems tick_next [of k] by (simp add: thread_turn_def)
    with Cons.IH [of ?r "Suc k"] Cons.prems show ?thesis by simp
  qed
qed simp

definition in_turn :: "nat list" where
  "in_turn = concat (map (replicate 10) [0, 1, 2, 3])"

lemma tick_test:
  "\<exists>out s2. multi_thread_test tick_clock in_turn 7 (tick_state 0) = (Ret out, s2)"
proof -
  have l: "length in_turn = 40" by (simp add: in_turn_def)
  have "tr_sf (test_start (tick_state 0)) = tick_state 0" by (simp add: test_start_def)
  from tick_run [OF this, of in_turn] l obtain r where
    r: "run_threads tick_clock in_turn (test_start (tick_state 0)) = Ret r"
      "tr_left r = fold (\<lambda>i l. l[i := l ! i - 1]) in_turn (replicate 4 10)"
    by (auto simp: test_start_def)
  have "fold (\<lambda>i l. l[i := l ! i - 1]) in_turn (replicate 4 10) = replicate 4 (0 :: nat)"
    unfolding in_turn_def by code_simp
  with r have "multi_thread_test tick_clock in_turn 7 (tick_state 0) =
      (Ret (map (parse_id 7) (concat (tr_ids r))), tr_sf r)"
    by (simp add: multi_thread_test_def list_all_length)
  then show ?thesis by blast
qed

text \<open>
  A test program that exits with 0 has printed forty different ids of the configured service, however
  the four threads were interleaved, on any clock that does not step back. (It cannot fail otherwise than
  by \<open>std::terminate\<close> or by hanging.)
\<close>

theorem snowflake_test_confirms:
  assumes "test_main file_exists read_ini windows indeterminate clk turns (c, sf_initial) = (Ret (0, out), (Some cfg, s2))"
    "clock_ok clk (sv_custom_epoch (ac_server cfg))"
  shows "length out = 40 \<and> distinct out \<and> (\<forall>p \<in> set out. fst (snd p) = sv_service_id (ac_server cfg))"
proof -
  let ?load = "config_init file_exists read_ini windows indeterminate ''../../doc/config.ini''"
  have "andthen (test_init ?load clk) (\<lambda>_. andthen (on_fst config_get) (\<lambda>cfg.
      andthen (on_snd (multi_thread_test clk turns (sv_custom_epoch (ac_server cfg)))) (\<lambda>out. ret (0 :: int, out))))
      (c, sf_initial) = (Ret (0, out), (Some cfg, s2))"
    using assms(1) by (auto simp: test_main_def try_catch_def ret_def split: prod.splits outcome.splits)
  then obtain s1 where "sf_init clk (sv_service_id (ac_server cfg)) (sv_custom_epoch (ac_server cfg)) sf_initial = (Ret (), s1)"
    "multi_thread_test clk turns (sv_custom_epoch (ac_server cfg)) s1 = (Ret out, s2)"
    by (auto simp: test_init_def andthen_eq_Ret on_fst_Ret on_snd_Ret config_get_Ret ret_def)
  then show ?thesis using multi_thread_test_Ret [OF _ assms(2)] by blast
qed

definition test_tree :: ptree where
  "test_tree = \<lparr>pt_int = (\<lambda>_. Ret 1), pt_string = (\<lambda>_. Ret ''x''), pt_u16 = (\<lambda>_. Ret 80),
     pt_u32 = (\<lambda>_. Ret 1), pt_u64 = (\<lambda>_. Ret 7)\<rparr>"

lemma snowflake_test_confirms_witness:
  "\<exists>out cfg s2. test_main (\<lambda>_. True) (\<lambda>_. Ret test_tree) False 0 tick_clock in_turn (None, sf_initial) =
     (Ret (0, out), (Some cfg, s2)) \<and> length out = 40 \<and> distinct out"
proof -
  let ?load = "config_init (\<lambda>_. True) (\<lambda>_. Ret test_tree) False 0 ''../../doc/config.ini''"
  have small: "\<not> 1024 \<le> (7 :: u64)" by (simp add: word_le_nat_alt)
  obtain cfg where cfg: "?load None = (Ret (), Some cfg)" "sv_service_id (ac_server cfg) = 7" "sv_custom_epoch (ac_server cfg) = 7"
    by (simp add: config_init_cases config_items_def db_item_def sv_item_def setter_defs test_tree_def new_app_config_def
        small)
  obtain out s2 where out: "multi_thread_test tick_clock in_turn 7 (tick_state 0) = (Ret out, s2)" using tick_test by blast
  have run: "test_main (\<lambda>_. True) (\<lambda>_. Ret test_tree) False 0 tick_clock in_turn (None, sf_initial) =
      (Ret (0, out), (Some cfg, s2))"
    by (simp add: test_main_def try_catch_def test_init_def andthen_def on_fst_def on_snd_def config_get_def ret_def
        cfg tick_init out)
  from snowflake_test_confirms [OF this] cfg tick_clock_ok run show ?thesis by auto
qed

end
