(* ===== verification/Spec2Isabelle.thy ===== *)
theory Spec2Isabelle
  imports ServerRun HandlerReplies LegacySession Transactions ChatWorld NestedScopes SnowflakeTest
begin

text \<open>
  \<^bold>\<open>A model of tinychat_server\<close>

  The program is a chat server: an HTTP API for accounts and rooms, a WebSocket channel for
  messages, a MySQL database behind both. I/O threads run the asynchronous handlers of
  connections on strands; they hand work to a pool of worker threads, and workers run the
  handlers of requests and messages, take scoped database connections from a pool, draw ids from
  a generator, and post replies back to the strands. Every theory translates one part of the
  sources under \<open>src/src\<close>; names follow the C++ names.

  \<^bold>\<open>Theories and sources\<close>
  \<^item> \<open>Prelude\<close>: word types (\<open>utils/types.hpp\<close>), exceptions, outcomes (\<open>Ret\<close>, \<open>Throw\<close>,
    \<open>Undef\<close> for undefined behaviour, \<open>Hang\<close> for blocking for ever, \<open>Terminate\<close>), the state
    monad with \<open>try\<close>, destructors and weakest preconditions. \<open>CppStd\<close>: the library functions the
    sources call on texts and numbers.
  \<^item> \<open>Interfaces\<close>: the locales \<open>id_supply\<close>, \<open>codec\<close>, \<open>codec_chain\<close> and \<open>write_queue\<close>,
    interpreted in \<open>Snowflake\<close>, \<open>CppStd\<close>, \<open>Json\<close>, \<open>WsSession\<close>, \<open>LegacySession\<close> and
    \<open>HttpSession\<close>. \<open>SysMoves\<close>: the locale \<open>handler_moves\<close>, what a run of a handler may do to the
    session table, interpreted there for requests and for messages.
  \<^item> \<open>Config\<close> (\<open>utils/config.*\<close>), \<open>Enums\<close> (\<open>utils/enums.hpp\<close>), \<open>Json\<close> and \<open>Models\<close>
    (\<open>model/*\<close>), \<open>Snowflake\<close> (\<open>utils/snowflake.*\<close>), \<open>ThreadPool\<close> (\<open>pool/*\<close>), \<open>SqlPool\<close>
    (\<open>db/*\<close>).
  \<^item> \<open>ServerState\<close>: the state a handler works on and the record of parameters; \<open>WsSessionMgr\<close>
    (\<open>core/ws_session_mgr.*\<close>); \<open>RequestUtil\<close> and \<open>Auth\<close> (the pure functions and the token and
    password functions of \<open>core/request_handler.cpp\<close>); \<open>RequestHandler\<close>
    (\<open>core/request_handler.*\<close>); \<open>WsHandler\<close> (\<open>core/ws_handler.cpp\<close>).
  \<^item> \<open>WsSession\<close> (\<open>core/websocket_session.*\<close>), \<open>LegacySession\<close> (\<open>websocket_session.cpp\<close>, the
    class it replaced), \<open>HttpSession\<close> (\<open>core/http_session.*\<close>), \<open>Logging\<close> (the logger's set-up and
    shutdown in \<open>tinychat_server.cpp\<close>), \<open>Server\<close> (\<open>core/listener.*\<close>, \<open>tinychat_server.*\<close>,
    \<open>main.cpp\<close>), \<open>SnowflakeTest\<close> (\<open>tests/snowflake_test.hpp\<close> beside \<open>src\<close>, \<open>test_main.cpp\<close>).
  \<^item> \<open>WsWorld\<close>: all WebSocket sessions at once, with the table and the workers that send to them;
    \<open>ChatWorld\<close>: the service, where workers run \<open>handle_message\<close> on what those sessions receive;
    \<open>NestedScopes\<close>: workers that open a connection inside a connection.
  \<^item> \<open>Traces\<close>, \<open>HandlerSafety\<close>, \<open>HandlerLimits\<close>, \<open>HandlerReplies\<close>, \<open>FreshIds\<close>,
    \<open>Transactions\<close>: judgements on handlers and what they prove; \<open>ServerRun\<close>: a started server running many jobs; this theory:
    what spans the handlers and the worker pool.

  \<^bold>\<open>State and interaction\<close>
  A handler is a program over \<open>sys\<close>: database, connection pool, scoped connections, the history
  of statements and posted messages, id generator, session table. It runs alone, because whatever
  other threads do to the database is part of the arbitrary functions of the parameter \<open>mysql\<close>.
  What threads share is modelled where it matters, as step relations over all interleavings:
  \<open>pool_step\<close> (workers, notifications, shutdown), \<open>sql_step\<close> (semaphore and queue of the
  connection pool), \<open>job_step\<close> (nested scopes on it), \<open>http_step\<close> (what can end on a connection),
  \<open>ws_world_step\<close> (upgrades, reads, senders, writes and destructors of all sessions). Handlers of
  strands return their new state and the asynchronous operations they start. \<open>chat_step\<close> puts
  sessions, pool and handlers together, a run of a handler being one step; it refines
  \<open>ws_world_step\<close>, where other steps come between a run's lookups and posts.

  \<^bold>\<open>What the lemmas show\<close>
  \<^item> Ids: they increase and differ between servers and within one, with an exact account of when
    \<open>next_id\<close> throws, waits for ever, or repeats an id.
  \<^item> Pools: tasks start in order, each runs once, none is forgotten at shutdown, no wake-up is
    lost; a connection has one owner, permits and connections agree; for which numbers of workers and
    connections group messages can deadlock; which kinds of task can end the process.
  \<^item> Handlers: checks precede the statements they guard, commits follow complete changes, replies
    agree with commits, messages go out after the commit, connections come back, replies are well
    formed, a transaction stays on its connection while that lives; and where a handler throws, blocks,
    has undefined behaviour or loses its transaction.
  \<^item> Sessions: writes go out in order one at a time (by \<open>write_queue\<close>), an HTTP connection
    implements a request-response machine, answers requests in order and lives as long as its limit
    lets it. Of all WebSocket sessions together: messages reach only the user they are for, in
    order; the table is exact while nobody logs in twice, and what an old session does to a new one
    otherwise; undefined behaviour comes from refused upgrades and always follows them.
  \<^item> The service: its runs are interleavings of the sessions' world; a connection carries what
    handled messages posted to it and nothing else, in order; what sessions receive is handled once;
    every text a client gets comes from a message of an authenticated sender that passed the checks.
  \<^item> The whole: from the start of the server through any sequence of jobs, primary keys increase
    and connections, permits and the generator's invariant are kept.
  \<^item> Encodings and routes: which values decode, round trips of ids and tokens, path segments,
    content types. Configuration and start: which files are accepted, and that a started server
    meets the assumptions the components' lemmas make; when \<open>main\<close> returns 0 and
    which client ends it.

  \<^bold>\<open>Parameters\<close>
  MySQL and its connector, JSON text, jwt-cpp, libsodium, Beast's test for an upgrade, files, the
  clock, the INI parser, the random generator, the acceptor, the peers of its sockets, the signal, the results of calls into spdlog. They are arguments, mostly records of
  functions; hypotheses about them are named (\<open>clock_ok\<close>: readings do not decrease, start at
  the epoch and stay within 42 bits of it; \<open>healthy\<close>: connections stay alive).

  \<^bold>\<open>Bounds and loops\<close>
  There is no fuel. The waiting loop of the id generator is a \<open>partial_function\<close> in the option
  monad whose \<open>None\<close> is spinning for ever; all other loops are structural. Integers have the width
  of the source; \<open>int\<close> stands for values that stay in range by the database's contract.

  \<^bold>\<open>Not modelled\<close>
  Single log lines (but for the one that can throw), timeouts and the network below Beast, the
  destruction of static objects at exit, the printing of the test program, the precompiled header
  and the build files. A run of a handler that blocks for ever is no step of \<open>chat_step\<close>. The
  database's own transactions are not interpreted: statements about commits are statements about
  the calls the program makes.
\<close>

section \<open>Tasks in the worker pool\<close>

text \<open>The exceptions a worker sees: those that leave the task of an HTTP request.\<close>

definition http_task_throws :: "'w env \<Rightarrow> 'w sys \<Rightarrow> http_request \<Rightarrow> bool" where
  "http_task_throws E s req = escapes (fst (http_task E req s))"

lemma running_stays:
  assumes "pool_work throws p q" "i < length (tp_workers p)" "tp_workers p ! i = Running t" "throws t"
  shows "tp_workers q ! i = Running t"
  using assms
proof (induction rule: pool_work.induct)
  case (notify s j)
  then show ?case by (cases "j = i") auto
next
  case (check s j)
  then show ?case by (cases "j = i") (auto simp: worker_check_def)
next
  case (finish s j u)
  then show ?case by (cases "j = i") auto
qed (auto simp: wake_def)

text \<open>
  C35: one malformed request ends the server: once a worker runs the task of a request that
  carries no token and a body that is not JSON, in whatever state the server is, that task can
  only end by an exception out of the worker thread, which ends the process: no step is possible
  afterwards, so no other task is finished and no later request is answered.
\<close>

theorem malformed_request_kills_server:
  assumes "\<not> tp_dead p" "i < length (tp_workers p)" "tp_workers p ! i = Running req"
    "rq_authorization req = None" "rq_body req \<noteq> []" "env_parse E (rq_body req) = Inl e"
  shows "pool_work (http_task_throws E s) p (p\<lparr>tp_dead := True\<rparr>) \<and>
    pool_idle (http_task_throws E s) (p\<lparr>tp_dead := True\<rparr>) \<and>
    (\<forall>q. pool_work (http_task_throws E s) p q \<longrightarrow> tp_workers q ! i = Running req)"
proof -
  have "handle_request E req s = (Throw e, s)" using assms(4-6) malformed_request_escapes by blast
  then have throws: "http_task_throws E s req" by (simp add: http_task_throws_def http_task_def andthen_def)
  have "pool_idle (http_task_throws E s) (p\<lparr>tp_dead := True\<rparr>)"
    by (auto simp: pool_idle_def elim: pool_work.cases)
  with throws assms(1-3) show ?thesis by (auto intro: pool_work.escape running_stays)
qed

definition bad_body_env :: "unit env" where
  "bad_body_env = (demo_env dead_mysql)\<lparr>env_parse := (\<lambda>b. Inl (SystemError ''syntax''))\<rparr>"

definition busy_pool :: "http_request pool" where
  "busy_pool = (new_pool 2)\<lparr>tp_workers := [Running (demo_request\<lparr>rq_body := ''x''\<rparr>), Blocked]\<rparr>"

lemma malformed_request_kills_server_witness:
  "pool_work (http_task_throws bad_body_env demo_sys) busy_pool (busy_pool\<lparr>tp_dead := True\<rparr>)"
  using malformed_request_kills_server [of busy_pool 0 "demo_request\<lparr>rq_body := ''x''\<rparr>" bad_body_env "SystemError ''syntax''" demo_sys]
  by (simp add: busy_pool_def bad_body_env_def new_pool_def demo_request_def)

section \<open>When the database is away\<close>

text \<open>
  C36: an outage of the database ends the server with the next message: when the connection at
  the front of the pool is dead and connecting fails, handling a message of a WebSocket client
  or a login throws out of the worker's task, and the permit and the connection that were taken
  are lost.
\<close>

theorem database_outage_escapes:
  assumes "sp_smph (db_pool s) = Some (Suc n)" "sp_queue (db_pool s) = c # cs"
    "my_valid (env_mysql E) c (db_world s) = (False, w)" "my_driver (env_mysql E) w"
    "my_connect (env_mysql E) (Plain (db_server (env_db E)) (db_user (env_db E)) (db_passwd (env_db E))) w = (Inl e, w')"
  shows "\<exists>t. handle_message E msg claims s = (Throw e, t) \<and>
    db_pool t = (db_pool s)\<lparr>sp_smph := Some n, sp_queue := cs\<rparr> \<and>
    (\<forall>jv lr. env_parse E (rq_body req) = Inr jv \<longrightarrow> to_login_request jv = Ret lr \<longrightarrow> rq_method req = Post_verb \<longrightarrow>
       handle_login E req s = (Throw e, t))"
proof -
  let ?t = "s\<lparr>db_pool := (db_pool s)\<lparr>sp_smph := Some n, sp_queue := cs\<rparr>, db_world := w'\<rparr>"
  have "raii_ctor (env_mysql E) (env_db E) s = (Throw e, ?t)"
    using assms by (simp add: raii_ctor_def get_conn_def pool_get_sql_def andthen_def on_pool_def
        sem_acquire_def pop_conn_def is_valid_def db_call_def gets_def Let_def)
  then have scope: "conn_scope E body s = (Throw e, ?t)" for body :: "('a sys, 'b) prog"
    by (simp add: with_conn_def andthen_def)
  then have "handle_message E msg claims s = (Throw e, ?t)" by (simp add: handle_message_def)
  moreover have "handle_login E req s = (Throw e, ?t)"
    if "env_parse E (rq_body req) = Inr jv" "to_login_request jv = Ret lr" "rq_method req = Post_verb" for jv lr
    using that scope by (simp add: handle_login_def andthen_def lift_def)
  ultimately show ?thesis by (intro exI [of _ ?t]) simp
qed

lemma database_outage_escapes_witness:
  "fst (handle_message (demo_env dead_mysql) ''m'' \<lparr>uc_id = 7, uc_username = ''bob''\<rparr> demo_sys) = Throw (SQLException ''down'')"
proof -
  have "sp_smph (db_pool demo_sys) = Some (Suc 0)" "sp_queue (db_pool demo_sys) = [0]" by (simp_all add: demo_sys_def)
  moreover have "my_valid (env_mysql (demo_env dead_mysql)) 0 (db_world demo_sys) = (False, ())"
    "my_driver (env_mysql (demo_env dead_mysql)) ()"
    "my_connect (env_mysql (demo_env dead_mysql)) a () = (Inl (SQLException ''down''), ())" for a
    by (simp_all add: demo_env_def dead_mysql_def)
  ultimately have "\<exists>t. handle_message (demo_env dead_mysql) ''m'' \<lparr>uc_id = 7, uc_username = ''bob''\<rparr> demo_sys =
      (Throw (SQLException ''down''), t)"
    using database_outage_escapes [where E = "demo_env dead_mysql" and s = demo_sys and msg = "''m''"] by blast
  then show ?thesis by auto
qed

end
